theory Spec2Isabelle
  imports Main "HOL-Library.Word" "HOL-Library.Code_Target_Numeral"
begin

unbundle bit_operations_syntax

section \<open>Flexible 2D arrays of RawTherapee (rtengine/array2D.h)\<close>

text \<open>
  The class \<^verbatim>\<open>array2D<T>\<close> manages two heap arrays through raw pointers: \<^verbatim>\<open>data\<close>, a
  flat array of \<^verbatim>\<open>T\<close>, and \<^verbatim>\<open>rows\<close>, an array of \<^verbatim>\<open>T*\<close>. What the class does is
  which arrays it allocates, releases, aliases and writes, so the embedding has an explicit
  store: every \<^verbatim>\<open>new[]\<close> creates a block with an identity of its own, a pointer is a block
  together with an index into it, and every access that C++ leaves undefined (through a null
  pointer, into a released block, outside a block, \<^verbatim>\<open>delete[]\<close> of something that is not the
  start of a live block) is an error value.
\<close>

subsection \<open>Errors\<close>

datatype error =
    Bad_alloc       \<comment> \<open>\<^verbatim>\<open>new[]\<close> could not obtain the memory\<close>
  | Null_deref      \<comment> \<open>access through \<^verbatim>\<open>nullptr\<close>\<close>
  | Dangling        \<comment> \<open>access to a block that is not (or no longer) allocated\<close>
  | Out_of_bounds   \<comment> \<open>access outside the block\<close>
  | Uninit_ptr      \<comment> \<open>use of a row pointer that was never written\<close>
  | Bad_delete      \<comment> \<open>\<^verbatim>\<open>delete[]\<close> of a pointer that \<^verbatim>\<open>new[]\<close> did not return, or twice\<close>
  | Assertion       \<comment> \<open>a failed \<^verbatim>\<open>assert\<close>\<close>

definition bind_err :: "error + 'a \<Rightarrow> ('a \<Rightarrow> error + 'b) \<Rightarrow> error + 'b" where
  "bind_err m f = (case m of Inl e \<Rightarrow> Inl e | Inr x \<Rightarrow> f x)"

subsection \<open>Machine integers\<close>

text \<open>
  \<^verbatim>\<open>size_t\<close> is taken to be 64 bits wide and \<^verbatim>\<open>int\<close> 32 bits. Sizes are natural numbers
  below \<open>2 ^ 64\<close>; the products and sums the source computes on them wrap around, which is
  written out here. \<^verbatim>\<open>unsigned int\<close> flags are 32-bit words.
\<close>

definition SIZE_MOD :: nat where
  "SIZE_MOD = 2 ^ 64"

definition size_mul :: "nat \<Rightarrow> nat \<Rightarrow> nat" where
  "size_mul a b = (a * b) mod SIZE_MOD"

text \<open>\<^verbatim>\<open>size_t + int\<close> and \<^verbatim>\<open>size_t * int\<close>: the \<^verbatim>\<open>int\<close> is converted to \<^verbatim>\<open>size_t\<close> (modulo \<open>2 ^ 64\<close>).\<close>

definition size_plus_int :: "nat \<Rightarrow> int \<Rightarrow> nat" where
  "size_plus_int a k = nat ((int a + k) mod int SIZE_MOD)"

definition size_times_int :: "nat \<Rightarrow> int \<Rightarrow> nat" where
  "size_times_int a k = nat ((int a * k) mod int SIZE_MOD)"

text \<open>\<^verbatim>\<open>size_t\<close> passed where an \<^verbatim>\<open>int\<close> parameter is expected: the low 32 bits, read as two's complement.\<close>

definition int_of_size :: "nat \<Rightarrow> int" where
  "int_of_size n = (int n + 2 ^ 31) mod 2 ^ 32 - 2 ^ 31"

definition ARRAY2D_CLEAR_DATA :: "32 word" where
  "ARRAY2D_CLEAR_DATA = 1"

definition ARRAY2D_BYREFERENCE :: "32 word" where
  "ARRAY2D_BYREFERENCE = 2"

subsection \<open>The store\<close>

datatype ptr = Null | Ptr nat int   \<comment> \<open>a block and an index into it\<close>

fun ptr_add :: "ptr \<Rightarrow> int \<Rightarrow> ptr" where
  "ptr_add Null k = Null"
| "ptr_add (Ptr b i) k = Ptr b (i + k)"

text \<open>
  A store of arrays with cells of type \<open>'c\<close>: block \<open>b\<close> is the \<open>b\<close>-th entry, \<open>None\<close> once
  released. Blocks are never reused, so a block identifies one allocation.
\<close>

type_synonym 'c store = "'c list option list"

fun load_cell :: "'c store \<Rightarrow> ptr \<Rightarrow> error + 'c" where
  "load_cell S Null = Inl Null_deref"
| "load_cell S (Ptr b i) =
     (if b < length S then
        (case S ! b of
           None \<Rightarrow> Inl Dangling
         | Some cs \<Rightarrow> if 0 \<le> i \<and> nat i < length cs then Inr (cs ! nat i) else Inl Out_of_bounds)
      else Inl Dangling)"

fun store_cell :: "'c store \<Rightarrow> ptr \<Rightarrow> 'c \<Rightarrow> error + 'c store" where
  "store_cell S Null c = Inl Null_deref"
| "store_cell S (Ptr b i) c =
     (if b < length S then
        (case S ! b of
           None \<Rightarrow> Inl Dangling
         | Some cs \<Rightarrow>
             if 0 \<le> i \<and> nat i < length cs then Inr (S[b := Some (cs[nat i := c])])
             else Inl Out_of_bounds)
      else Inl Dangling)"

definition new_block :: "'c store \<Rightarrow> nat \<Rightarrow> 'c \<Rightarrow> ptr \<times> 'c store" where
  "new_block S n c = (Ptr (length S) 0, S @ [Some (replicate n c)])"

fun delete_block :: "'c store \<Rightarrow> ptr \<Rightarrow> error + 'c store" where
  "delete_block S Null = Inr S"
| "delete_block S (Ptr b i) =
     (if i = 0 \<and> b < length S \<and> S ! b \<noteq> None then Inr (S[b := None]) else Inl Bad_delete)"

text \<open>
  The heap: the arrays of \<^verbatim>\<open>T\<close> (a cell is \<open>None\<close> while its value is indeterminate), the
  arrays of \<^verbatim>\<open>T*\<close> (likewise), and the largest number of cells one \<^verbatim>\<open>new[]\<close> can obtain.
\<close>

record 'a heap =
  elems :: "'a option store"
  tabs :: "ptr option store"
  limit :: nat

definition load_elem :: "'a heap \<Rightarrow> ptr \<Rightarrow> error + 'a option" where
  "load_elem H p = load_cell (elems H) p"

definition store_elem :: "'a heap \<Rightarrow> ptr \<Rightarrow> 'a option \<Rightarrow> error + 'a heap" where
  "store_elem H p v = bind_err (store_cell (elems H) p v) (\<lambda>S. Inr (H\<lparr>elems := S\<rparr>))"

definition load_row :: "'a heap \<Rightarrow> ptr \<Rightarrow> error + ptr" where
  "load_row H p =
     bind_err (load_cell (tabs H) p) (\<lambda>c. case c of None \<Rightarrow> Inl Uninit_ptr | Some q \<Rightarrow> Inr q)"

definition store_row :: "'a heap \<Rightarrow> ptr \<Rightarrow> ptr \<Rightarrow> error + 'a heap" where
  "store_row H p q = bind_err (store_cell (tabs H) p (Some q)) (\<lambda>S. Inr (H\<lparr>tabs := S\<rparr>))"

text \<open>\<^verbatim>\<open>new T[n]\<close> and \<^verbatim>\<open>new T*[n]\<close>: a fresh block of \<open>n\<close> indeterminate cells, or \<^verbatim>\<open>std::bad_alloc\<close>.\<close>

definition new_elems :: "'a heap \<Rightarrow> nat \<Rightarrow> error + (ptr \<times> 'a heap)" where
  "new_elems H n =
     (if limit H < n then Inl Bad_alloc
      else case new_block (elems H) n None of (p, S) \<Rightarrow> Inr (p, H\<lparr>elems := S\<rparr>))"

definition new_rows :: "'a heap \<Rightarrow> nat \<Rightarrow> error + (ptr \<times> 'a heap)" where
  "new_rows H n =
     (if limit H < n then Inl Bad_alloc
      else case new_block (tabs H) n None of (p, S) \<Rightarrow> Inr (p, H\<lparr>tabs := S\<rparr>))"

definition delete_elems :: "'a heap \<Rightarrow> ptr \<Rightarrow> error + 'a heap" where
  "delete_elems H p = bind_err (delete_block (elems H) p) (\<lambda>S. Inr (H\<lparr>elems := S\<rparr>))"

definition delete_rows :: "'a heap \<Rightarrow> ptr \<Rightarrow> error + 'a heap" where
  "delete_rows H p = bind_err (delete_block (tabs H) p) (\<lambda>S. Inr (H\<lparr>tabs := S\<rparr>))"

subsection \<open>Loops\<close>

text \<open>\<^verbatim>\<open>for (size_t i = i0; i < n; ++i) body\<close>, stopping at the first error.\<close>

function for_loop :: "nat \<Rightarrow> nat \<Rightarrow> (nat \<Rightarrow> 's \<Rightarrow> error + 's) \<Rightarrow> 's \<Rightarrow> error + 's" where
  "for_loop i n body s =
     (if i < n then bind_err (body i s) (\<lambda>s1. for_loop (i + 1) n body s1) else Inr s)"
  by pat_completeness auto
termination
  by (relation "measure (\<lambda>(i, n, body, s). n - i)") auto

declare for_loop.simps [simp del]

text \<open>
  \<^verbatim>\<open>memset(p, 0, n * sizeof(T))\<close>, at the granularity of elements: the \<open>n\<close> elements from
  \<open>p\<close> on become the value whose bytes are all zero, which is \<open>0\<close> for the arithmetic types the
  class is used with.
\<close>

definition memset_zero :: "('a::zero) heap \<Rightarrow> ptr \<Rightarrow> nat \<Rightarrow> error + 'a heap" where
  "memset_zero H p n = for_loop 0 n (\<lambda>k Hk. store_elem Hk (ptr_add p (int k)) (Some 0)) H"

subsection \<open>array2D\<close>

record array2D =
  width :: nat
  height :: nat
  rows :: ptr
  data :: ptr

text \<open>The three statements of \<^verbatim>\<open>ar_realloc\<close> on \<^verbatim>\<open>rows\<close>, on \<^verbatim>\<open>data\<close>, and its loop.\<close>

definition ar_realloc_rows :: "'a heap \<Rightarrow> array2D \<Rightarrow> nat \<Rightarrow> error + ('a heap \<times> array2D)" where
  "ar_realloc_rows H a h =
     bind_err
       (if rows a \<noteq> Null \<and> (h > height a \<or> size_mul 4 h < height a)
        then bind_err (delete_rows H (rows a)) (\<lambda>H1. Inr (H1, a\<lparr>rows := Null\<rparr>))
        else Inr (H, a))
       (\<lambda>(H1, a1).
          if rows a1 = Null
          then bind_err (new_rows H1 h) (\<lambda>(p, H2). Inr (H2, a1\<lparr>rows := p\<rparr>))
          else Inr (H1, a1))"

definition ar_realloc_data ::
  "'a heap \<Rightarrow> array2D \<Rightarrow> nat \<Rightarrow> nat \<Rightarrow> int \<Rightarrow> error + ('a heap \<times> array2D)" where
  "ar_realloc_data H a w h offset =
     bind_err
       (if data a \<noteq> Null \<and>
           (size_mul h w > size_mul (width a) (height a) \<or>
            size_mul h w < size_mul (width a) (height a) div 4)
        then bind_err (delete_elems H (data a)) (\<lambda>H1. Inr (H1, a\<lparr>data := Null\<rparr>))
        else Inr (H, a))
       (\<lambda>(H1, a1).
          let a2 = a1\<lparr>width := w, height := h\<rparr> in
          if data a2 = Null
          then bind_err (new_elems H1 (size_plus_int (size_mul (height a2) (width a2)) offset))
                 (\<lambda>(p, H2). Inr (H2, a2\<lparr>data := p\<rparr>))
          else Inr (H1, a2))"

definition set_rows :: "'a heap \<Rightarrow> array2D \<Rightarrow> int \<Rightarrow> error + 'a heap" where
  "set_rows H a offset =
     for_loop 0 (height a)
       (\<lambda>i Hi. store_row Hi (ptr_add (rows a) (int i))
                 (ptr_add (ptr_add (data a) offset) (int (size_mul (width a) i))))
       H"

definition ar_realloc ::
  "'a heap \<Rightarrow> array2D \<Rightarrow> nat \<Rightarrow> nat \<Rightarrow> int \<Rightarrow> error + ('a heap \<times> array2D)" where
  "ar_realloc H a w h offset =
     bind_err (ar_realloc_rows H a h) (\<lambda>(H1, a1).
     bind_err (ar_realloc_data H1 a1 w h offset) (\<lambda>(H2, a2).
     bind_err (set_rows H2 a2 offset) (\<lambda>H3. Inr (H3, a2))))"

text \<open>\<^verbatim>\<open>array2D()\<close>: the empty declaration.\<close>

definition array2D_empty :: array2D where
  "array2D_empty = \<lparr>width = 0, height = 0, rows = Null, data = Null\<rparr>"

text \<open>\<^verbatim>\<open>array2D(w, h, flags)\<close>, creator type 1.\<close>

definition array2D_sized ::
  "('a::zero) heap \<Rightarrow> nat \<Rightarrow> nat \<Rightarrow> 32 word \<Rightarrow> error + ('a heap \<times> array2D)" where
  "array2D_sized H w h flags =
     bind_err (new_elems H (size_mul h w)) (\<lambda>(d, H1).
     bind_err (new_rows H1 h) (\<lambda>(r, H2).
     let a = \<lparr>width = w, height = h, rows = r, data = d\<rparr> in
     bind_err
       (for_loop 0 (height a)
          (\<lambda>i Hi. store_row Hi (ptr_add (rows a) (int i))
                    (ptr_add (data a) (int (size_mul i (width a)))))
          H2)
       (\<lambda>H3.
          if flags AND ARRAY2D_CLEAR_DATA \<noteq> 0
          then bind_err (memset_zero H3 (data a) (size_mul (width a) (height a)))
                 (\<lambda>H4. Inr (H4, a))
          else Inr (H3, a))))"

text \<open>\<^verbatim>\<open>array2D(w, h, source, flags)\<close>, creator type 2.\<close>

definition copy_row :: "'a heap \<Rightarrow> array2D \<Rightarrow> ptr \<Rightarrow> nat \<Rightarrow> error + 'a heap" where
  "copy_row H a source i =
     for_loop 0 (width a)
       (\<lambda>j Hj.
          bind_err (load_row Hj (ptr_add source (int i))) (\<lambda>src.
          bind_err (load_elem Hj (ptr_add src (int j))) (\<lambda>v.
          bind_err (load_row Hj (ptr_add (rows a) (int i))) (\<lambda>dst.
          store_elem Hj (ptr_add dst (int j)) v))))
       H"

definition array2D_from ::
  "'a heap \<Rightarrow> nat \<Rightarrow> nat \<Rightarrow> ptr \<Rightarrow> 32 word \<Rightarrow> error + ('a heap \<times> array2D)" where
  "array2D_from H w h source flags =
     (let owner = \<not> (flags AND ARRAY2D_BYREFERENCE \<noteq> 0) in
      bind_err
        (if owner then new_elems H (size_mul h w) else Inr (Null, H)) (\<lambda>(d, H1).
      bind_err (new_rows H1 h) (\<lambda>(r, H2).
      let a = \<lparr>width = w, height = h, rows = r, data = d\<rparr> in
      bind_err
        (for_loop 0 (height a)
           (\<lambda>i Hi.
              if owner then
                bind_err (store_row Hi (ptr_add (rows a) (int i))
                            (ptr_add (data a) (int (size_mul i (width a)))))
                  (\<lambda>Hi1. copy_row Hi1 a source i)
              else
                bind_err (load_row Hi (ptr_add source (int i)))
                  (\<lambda>src. store_row Hi (ptr_add (rows a) (int i)) src))
           H2)
        (\<lambda>H3. Inr (H3, a)))))"

text \<open>The destructor.\<close>

definition array2D_destroy :: "'a heap \<Rightarrow> array2D \<Rightarrow> error + 'a heap" where
  "array2D_destroy H a =
     bind_err (delete_elems H (data a)) (\<lambda>H1. delete_rows H1 (rows a))"

text \<open>
  \<^verbatim>\<open>fill\<close>. The loop runs over the indices below \<^verbatim>\<open>width * height\<close>; with OpenMP and
  \<^verbatim>\<open>multiThread\<close> set, its iterations are shared among threads. Each iteration is one store to
  a cell of its own, so a parallel run is the iterations in some order: the order the run
  takes, \<open>sched\<close>, is a parameter, and a run is one whose \<open>sched\<close> is a permutation of the
  indices.
\<close>

definition fill_body :: "array2D \<Rightarrow> 'a \<Rightarrow> nat \<Rightarrow> 'a heap \<Rightarrow> error + 'a heap" where
  "fill_body a val i H = store_elem H (ptr_add (data a) (int i)) (Some val)"

fun fill_par :: "'a heap \<Rightarrow> array2D \<Rightarrow> 'a \<Rightarrow> nat list \<Rightarrow> error + 'a heap" where
  "fill_par H a val [] = Inr H"
| "fill_par H a val (i # sched) = bind_err (fill_body a val i H) (\<lambda>H1. fill_par H1 a val sched)"

definition fill :: "'a heap \<Rightarrow> array2D \<Rightarrow> 'a \<Rightarrow> bool \<Rightarrow> nat list \<Rightarrow> error + 'a heap" where
  "fill H a val multiThread sched =
     (if multiThread then fill_par H a val sched
      else for_loop 0 (size_mul (width a) (height a)) (fill_body a val) H)"

definition is_schedule :: "array2D \<Rightarrow> nat list \<Rightarrow> bool" where
  "is_schedule a sched \<longleftrightarrow>
     distinct sched \<and> set sched = {..<size_mul (width a) (height a)}"

text \<open>\<^verbatim>\<open>free\<close>.\<close>

definition free :: "'a heap \<Rightarrow> array2D \<Rightarrow> error + ('a heap \<times> array2D)" where
  "free H a =
     bind_err (delete_elems H (data a)) (\<lambda>H1.
     let a1 = a\<lparr>data := Null\<rparr> in
     bind_err (delete_rows H1 (rows a1)) (\<lambda>H2.
     Inr (H2, a1\<lparr>rows := Null\<rparr>)))"

text \<open>
  \<^verbatim>\<open>operator[]\<close>: the assertion, then \<^verbatim>\<open>rows[index]\<close>. (Without the assertion, in a release
  build, the same read is outside the table.)
\<close>

definition op_index :: "'a heap \<Rightarrow> array2D \<Rightarrow> nat \<Rightarrow> error + ptr" where
  "op_index H a index =
     (if index < height a then load_row H (ptr_add (rows a) (int index)) else Inl Assertion)"

text \<open>The conversions to \<^verbatim>\<open>T**\<close>, to \<^verbatim>\<open>T*\<close> and to \<^verbatim>\<open>bool\<close>, and the shape.\<close>

definition op_rows :: "array2D \<Rightarrow> ptr" where
  "op_rows a = rows a"

definition op_flat :: "array2D \<Rightarrow> ptr" where
  "op_flat a = data a"

definition getWidth :: "array2D \<Rightarrow> nat" where
  "getWidth a = width a"

definition getHeight :: "array2D \<Rightarrow> nat" where
  "getHeight a = height a"

definition op_bool :: "array2D \<Rightarrow> bool" where
  "op_bool a \<longleftrightarrow> width a > 0 \<and> height a > 0"

text \<open>\<^verbatim>\<open>operator()\<close>: the resize.\<close>

definition resize ::
  "('a::zero) heap \<Rightarrow> array2D \<Rightarrow> nat \<Rightarrow> nat \<Rightarrow> 32 word \<Rightarrow> int \<Rightarrow> error + ('a heap \<times> array2D)" where
  "resize H a w h flags offset =
     bind_err (ar_realloc H a w h offset) (\<lambda>(H1, a1).
     if flags AND ARRAY2D_CLEAR_DATA \<noteq> 0
     then bind_err (memset_zero H1 (ptr_add (data a1) offset) (size_mul (width a1) (height a1)))
            (\<lambda>H2. Inr (H2, a1))
     else Inr (H1, a1))"

text \<open>What a client does with the views: \<^verbatim>\<open>array[y][x]\<close>, \<^verbatim>\<open>array[y][x] = v\<close> and \<^verbatim>\<open>((T*) array)[k]\<close>.\<close>

definition get_at :: "'a heap \<Rightarrow> array2D \<Rightarrow> nat \<Rightarrow> nat \<Rightarrow> error + 'a option" where
  "get_at H a y x = bind_err (op_index H a y) (\<lambda>row. load_elem H (ptr_add row (int x)))"

definition put_at :: "'a heap \<Rightarrow> array2D \<Rightarrow> nat \<Rightarrow> nat \<Rightarrow> 'a \<Rightarrow> error + 'a heap" where
  "put_at H a y x v =
     bind_err (op_index H a y) (\<lambda>row. store_elem H (ptr_add row (int x)) (Some v))"

definition flat_at :: "'a heap \<Rightarrow> array2D \<Rightarrow> nat \<Rightarrow> error + 'a option" where
  "flat_at H a k = load_elem H (ptr_add (op_flat a) (int k))"

subsection \<open>multi\_array2D\<close>

text \<open>
  \<^verbatim>\<open>multi_array2D(width, height, flags, offset)\<close>: the \<open>num\<close> members are default-constructed,
  then resized in turn. \<^verbatim>\<open>(i + 1) * offset\<close> is computed in \<^verbatim>\<open>size_t\<close> and passed as \<^verbatim>\<open>int\<close>;
  the \<^verbatim>\<open>int\<close> flags are passed as \<^verbatim>\<open>unsigned int\<close>, bit for bit.
\<close>

definition multi_array2D ::
  "('a::zero) heap \<Rightarrow> nat \<Rightarrow> nat \<Rightarrow> nat \<Rightarrow> 32 word \<Rightarrow> int \<Rightarrow> error + ('a heap \<times> array2D list)" where
  "multi_array2D H num w h flags offset =
     for_loop 0 num
       (\<lambda>i (Hi, lst).
          bind_err (resize Hi (lst ! i) w h flags (int_of_size (size_times_int (i + 1) offset)))
            (\<lambda>(H1, a1). Inr (H1, lst[i := a1])))
       (H, replicate num array2D_empty)"

subsection \<open>External rows\<close>

text \<open>
  What the owner of an external table of row pointers does with it: \<^verbatim>\<open>source[y][x]\<close> and
  \<^verbatim>\<open>source[y][x] = v\<close>. The table is a valid \<open>h\<close>-by-\<open>w\<close> source when each of these reads is
  defined.
\<close>

definition ext_get :: "'a heap \<Rightarrow> ptr \<Rightarrow> nat \<Rightarrow> nat \<Rightarrow> error + 'a option" where
  "ext_get H source y x =
     bind_err (load_row H (ptr_add source (int y))) (\<lambda>row. load_elem H (ptr_add row (int x)))"

definition ext_put :: "'a heap \<Rightarrow> ptr \<Rightarrow> nat \<Rightarrow> nat \<Rightarrow> 'a \<Rightarrow> error + 'a heap" where
  "ext_put H source y x v =
     bind_err (load_row H (ptr_add source (int y)))
       (\<lambda>row. store_elem H (ptr_add row (int x)) (Some v))"

definition valid_source :: "'a heap \<Rightarrow> ptr \<Rightarrow> nat \<Rightarrow> nat \<Rightarrow> bool" where
  "valid_source H source w h \<longleftrightarrow> (\<forall>y<h. \<forall>x<w. \<not> isl (ext_get H source y x))"

subsection \<open>Predicates on states\<close>

text \<open>What \<^verbatim>\<open>delete[]\<close> accepts: \<^verbatim>\<open>nullptr\<close>, or the start of an array that is allocated.\<close>

definition releasable :: "'c store \<Rightarrow> ptr \<Rightarrow> bool" where
  "releasable S p \<longleftrightarrow>
     (case p of Null \<Rightarrow> True | Ptr b i \<Rightarrow> i = 0 \<and> b < length S \<and> S ! b \<noteq> None)"

text \<open>The test of \<^verbatim>\<open>ar_realloc\<close> that keeps \<^verbatim>\<open>data\<close>.\<close>

definition keeps_data :: "array2D \<Rightarrow> nat \<Rightarrow> nat \<Rightarrow> bool" where
  "keeps_data a w h \<longleftrightarrow>
     size_mul h w \<le> size_mul (width a) (height a) \<and>
     size_mul (width a) (height a) div 4 \<le> size_mul h w"

text \<open>The row table of an instance holds at least \<open>height\<close> pointers.\<close>

definition rows_fit :: "'a heap \<Rightarrow> array2D \<Rightarrow> bool" where
  "rows_fit H a \<longleftrightarrow>
     (case rows a of
        Null \<Rightarrow> True
      | Ptr t i \<Rightarrow> (case tabs H ! t of None \<Rightarrow> True | Some rs \<Rightarrow> height a \<le> length rs))"

text \<open>
  The two pointers of an instance are null or arrays it may release, and its row table is
  long enough for its height: what every member function relies on and keeps.
\<close>

definition tidy :: "'a heap \<Rightarrow> array2D \<Rightarrow> bool" where
  "tidy H a \<longleftrightarrow>
     releasable (elems H) (data a) \<and> releasable (tabs H) (rows a) \<and> rows_fit H a"

text \<open>The same arrays are allocated, with the same lengths.\<close>

definition same_shape :: "'a heap \<Rightarrow> 'a heap \<Rightarrow> bool" where
  "same_shape H H' \<longleftrightarrow>
     length (elems H') = length (elems H) \<and>
     (\<forall>t. map_option length (elems H' ! t) = map_option length (elems H ! t)) \<and>
     length (tabs H') = length (tabs H) \<and>
     (\<forall>t. map_option length (tabs H' ! t) = map_option length (tabs H ! t))"

text \<open>
  An owning instance in good order, with the offset its rows were set with: the element
  count does not overflow, \<^verbatim>\<open>data\<close> is the start of an allocated array that holds
  \<open>offset + width * height\<close> elements, and row \<open>y\<close> starts at \<open>data + offset + width * y\<close>.
\<close>

definition owning :: "'a heap \<Rightarrow> array2D \<Rightarrow> int \<Rightarrow> bool" where
  "owning H a offset \<longleftrightarrow>
     width a * height a < SIZE_MOD \<and> 0 \<le> offset \<and>
     (case data a of
        Null \<Rightarrow> False
      | Ptr b i \<Rightarrow>
          i = 0 \<and> b < length (elems H) \<and>
          (case elems H ! b of
             None \<Rightarrow> False
           | Some cs \<Rightarrow> nat offset + width a * height a \<le> length cs)) \<and>
     (\<forall>y<height a. op_index H a y = Inr (ptr_add (data a) (offset + int (width a * y))))"

text \<open>\<open>H'\<close> is \<open>H\<close> with one more array of \<open>n\<close> elements and one more row table.\<close>

definition grown :: "'a heap \<Rightarrow> 'a heap \<Rightarrow> nat \<Rightarrow> bool" where
  "grown H H' n \<longleftrightarrow>
     limit H' = limit H \<and>
     length (elems H') = Suc (length (elems H)) \<and>
     (\<forall>b<length (elems H). elems H' ! b = elems H ! b) \<and>
     map_option length (elems H' ! length (elems H)) = Some n \<and>
     length (tabs H') = Suc (length (tabs H)) \<and>
     (\<forall>t<length (tabs H). tabs H' ! t = tabs H ! t)"

text \<open>
  \<open>K'\<close> is \<open>K\<close> with more arrays: every array of elements and every row table of \<open>K\<close> is in
  \<open>K'\<close> as it is in \<open>K\<close>, allocated or released, with the same contents.
\<close>

definition extended :: "'a heap \<Rightarrow> 'a heap \<Rightarrow> bool" where
  "extended K K' \<longleftrightarrow>
     limit K' = limit K \<and>
     length (elems K) \<le> length (elems K') \<and>
     (\<forall>b<length (elems K). elems K' ! b = elems K ! b) \<and>
     length (tabs K) \<le> length (tabs K') \<and>
     (\<forall>t<length (tabs K). tabs K' ! t = tabs K ! t)"

text \<open>
  Slot \<open>i\<close> of the constructor that started in \<open>H\<close>, seen from the heap \<open>K\<close>: the \<open>i\<close>-th call
  of the resize ran on the empty instance, in a heap with \<open>i\<close> more arrays and tables than
  \<open>H\<close>, and nothing it left has changed since.
\<close>

definition slot_run ::
  "('a::zero) heap \<Rightarrow> 'a heap \<Rightarrow> nat \<Rightarrow> nat \<Rightarrow> 32 word \<Rightarrow> int \<Rightarrow> array2D \<Rightarrow> nat \<Rightarrow> bool" where
  "slot_run H K w h flags offset a i \<longleftrightarrow>
     (\<exists>Hi Hi' :: 'a heap.
        extended H Hi \<and> length (elems Hi) = length (elems H) + i
      \<and> length (tabs Hi) = length (tabs H) + i
      \<and> resize Hi array2D_empty w h flags (int_of_size (size_times_int (i + 1) offset)) =
          Inr (Hi', a)
      \<and> extended Hi' K)"

subsection \<open>Concrete states\<close>

text \<open>The states of the runs that the counterexamples and the instances below evaluate.\<close>

definition heap0 :: "int heap" where
  "heap0 = \<lparr>elems = [], tabs = [], limit = 64\<rparr>"

definition heap_2x2 :: "int heap" where
  "heap_2x2 = \<lparr>elems = [Some [None, None, None, None]],
                tabs = [Some [Some (Ptr 0 0), Some (Ptr 0 2)]], limit = 64\<rparr>"

definition array_2x2 :: array2D where
  "array_2x2 = \<lparr>width = 2, height = 2, rows = Ptr 0 0, data = Ptr 0 0\<rparr>"

text \<open>The 2-by-2 array with its rows set one element further on.\<close>

definition heap_shifted :: "int heap" where
  "heap_shifted = \<lparr>elems = [Some [None, None, None, None]],
                    tabs = [Some [Some (Ptr 0 1), Some (Ptr 0 3)]], limit = 64\<rparr>"









definition heap_off :: "int heap" where
  "heap_off = \<lparr>elems = [Some [None, Some 0, Some 0]], tabs = [Some [Some (Ptr 0 1)]], limit = 64\<rparr>"

definition array_off :: array2D where
  "array_off = \<lparr>width = 2, height = 1, rows = Ptr 0 0, data = Ptr 0 0\<rparr>"

text \<open>A table of one row with the two elements 1 and 2, and an instance that refers to it.\<close>

definition heap_src :: "int heap" where
  "heap_src = \<lparr>elems = [Some [Some 1, Some 2]], tabs = [Some [Some (Ptr 0 0)]], limit = 64\<rparr>"

definition heap_ref :: "int heap" where
  "heap_ref = \<lparr>elems = [Some [Some 1, Some 2]],
                tabs = [Some [Some (Ptr 0 0)], Some [Some (Ptr 0 0)]], limit = 64\<rparr>"

definition array_ref :: array2D where
  "array_ref = \<lparr>width = 2, height = 1, rows = Ptr 1 0, data = Null\<rparr>"



definition heap_copy :: "int heap" where
  "heap_copy = \<lparr>elems = [Some [Some 1, Some 2], Some [Some 1, Some 2]],
                 tabs = [Some [Some (Ptr 0 0)], Some [Some (Ptr 1 0)]], limit = 64\<rparr>"

definition array_copy :: array2D where
  "array_copy = \<lparr>width = 2, height = 1, rows = Ptr 1 0, data = Ptr 1 0\<rparr>"

definition heap_multi :: "int heap" where
  "heap_multi = \<lparr>elems = [Some [None, None, None], Some [None, None, None, None]],
                  tabs = [Some [Some (Ptr 0 1)], Some [Some (Ptr 1 2)]], limit = 64\<rparr>"

definition slots_multi :: "array2D list" where
  "slots_multi = [\<lparr>width = 2, height = 1, rows = Ptr 0 0, data = Ptr 0 0\<rparr>,
                  \<lparr>width = 2, height = 1, rows = Ptr 1 0, data = Ptr 1 0\<rparr>]"

definition heap_multi_zero :: "int heap" where
  "heap_multi_zero = \<lparr>elems = [Some [None, Some 0, Some 0], Some [None, None, Some 0, Some 0]],
                       tabs = [Some [Some (Ptr 0 1)], Some [Some (Ptr 1 2)]], limit = 64\<rparr>"

section \<open>Basic facts\<close>

lemma bind_err_Inl [simp]: "bind_err (Inl e) f = Inl e"
  by (simp add: bind_err_def)

lemma bind_err_Inr [simp]: "bind_err (Inr x) f = f x"
  by (simp add: bind_err_def)

lemma bind_err_eq_Inr: "bind_err m f = Inr y \<longleftrightarrow> (\<exists>x. m = Inr x \<and> f x = Inr y)"
  by (cases m) simp_all

lemma for_loop_step:
  "i < n \<Longrightarrow> for_loop i n body s = bind_err (body i s) (for_loop (Suc i) n body)"
  by (subst for_loop.simps) (simp add: fun_eq_iff cong: if_cong)

lemma for_loop_done: "\<not> i < n \<Longrightarrow> for_loop i n body s = Inr s"
  by (subst for_loop.simps) simp

lemma for_loop_rule:
  assumes "for_loop i n body s = Inr s'" and "I i s" and "i \<le> n"
    and "\<And>k t t'. i \<le> k \<Longrightarrow> k < n \<Longrightarrow> I k t \<Longrightarrow> body k t = Inr t' \<Longrightarrow> I (Suc k) t'"
  shows "I n s'"
  using assms
proof (induction i n body s rule: for_loop.induct)
  case (1 i n body s)
  show ?case
  proof (cases "i < n")
    case True
    from "1.prems"(1) True obtain s1 where b: "body i s = Inr s1"
      and r: "for_loop (i + 1) n body s1 = Inr s'"
      by (auto simp: for_loop_step bind_err_eq_Inr)
    have "I (Suc i) s1"
      using "1.prems"(4) [of i s s1] True "1.prems"(2) b by simp
    then show ?thesis
      using "1.IH" [OF True, of s1] r True "1.prems"(4) by simp
  next
    case False
    then show ?thesis
      using "1.prems" by (simp add: for_loop_done)
  qed
qed

lemma for_loop_total:
  assumes "I i s" and "i \<le> n"
    and "\<And>k t. i \<le> k \<Longrightarrow> k < n \<Longrightarrow> I k t \<Longrightarrow> \<exists>t'. body k t = Inr t' \<and> I (Suc k) t'"
  shows "\<exists>s'. for_loop i n body s = Inr s' \<and> I n s'"
  using assms
proof (induction i n body s rule: for_loop.induct)
  case (1 i n body s)
  show ?case
  proof (cases "i < n")
    case True
    from "1.prems"(3) [of i s] True "1.prems"(1)
    obtain s1 where b: "body i s = Inr s1" and i1: "I (Suc i) s1"
      by auto
    have "\<exists>s'. for_loop (i + 1) n body s1 = Inr s' \<and> I n s'"
      using "1.IH" [OF True, of s1] i1 True "1.prems"(3) by simp
    then show ?thesis
      using b True by (simp add: for_loop_step)
  next
    case False
    then show ?thesis
      using "1.prems" by (simp add: for_loop_done)
  qed
qed

section \<open>The store\<close>

lemma ptr_add_add: "ptr_add (ptr_add p a) b = ptr_add p (a + b)"
  by (cases p) simp_all

lemma ptr_add_eq_iff: "ptr_add p a = ptr_add p b \<longleftrightarrow> p = Null \<or> a = b"
  by (cases p) simp_all

lemma ptr_add_eq_Ptr: "ptr_add p k = Ptr b i \<longleftrightarrow> p = Ptr b (i - k)"
  by (cases p) auto

lemma load_cell_Inr:
  "load_cell S p = Inr c \<longleftrightarrow>
     (\<exists>b i cs. p = Ptr b i \<and> b < length S \<and> S ! b = Some cs \<and> 0 \<le> i \<and> nat i < length cs
        \<and> c = cs ! nat i)"
  by (cases p) (auto split: option.splits)

lemma store_cell_Inr:
  "store_cell S p c = Inr S' \<longleftrightarrow>
     (\<exists>b i cs. p = Ptr b i \<and> b < length S \<and> S ! b = Some cs \<and> 0 \<le> i \<and> nat i < length cs
        \<and> S' = S[b := Some (cs[nat i := c])])"
  by (cases p) (auto split: option.splits)

lemma store_cell_same:
  assumes "store_cell S p c = Inr S'"
  shows "load_cell S' p = Inr c"
  using assms by (auto simp: store_cell_Inr)

lemma store_cell_other:
  assumes "store_cell S p c = Inr S'" and "q \<noteq> p"
  shows "load_cell S' q = load_cell S q"
proof (cases q)
  case Null
  then show ?thesis by simp
next
  case (Ptr b' i')
  from assms(1) obtain b i cs where p: "p = Ptr b i" and b: "b < length S" "S ! b = Some cs"
    and i: "0 \<le> i" "nat i < length cs" and S': "S' = S[b := Some (cs[nat i := c])]"
    by (auto simp: store_cell_Inr)
  show ?thesis
  proof (cases "b' = b")
    case True
    with assms(2) p Ptr have "i' \<noteq> i" by simp
    then have "0 \<le> i' \<Longrightarrow> nat i' \<noteq> nat i" using i by auto
    then show ?thesis using Ptr True b i S' by auto
  next
    case False
    then show ?thesis using Ptr S' by auto
  qed
qed

lemma store_cell_frame:
  assumes "store_cell S p c = Inr S'"
  shows "length S' = length S"
    and "\<And>t. (\<And>j. p \<noteq> Ptr t j) \<Longrightarrow> S' ! t = S ! t"
    and "\<And>t. map_option length (S' ! t) = map_option length (S ! t)"
proof -
  from assms obtain b i cs where p: "p = Ptr b i" and b: "b < length S" "S ! b = Some cs"
    and S': "S' = S[b := Some (cs[nat i := c])]"
    by (auto simp: store_cell_Inr)
  show "length S' = length S" using S' by simp
  show "S' ! t = S ! t" if "\<And>j. p \<noteq> Ptr t j" for t
    using that [of i] p S' by auto
  show "map_option length (S' ! t) = map_option length (S ! t)" for t
    using S' b by (cases "t = b") auto
qed

lemma store_ext:
  assumes "length S1 = length S2"
    and "\<And>t. map_option length (S1 ! t) = map_option length (S2 ! t)"
    and "\<And>p. load_cell S1 p = load_cell S2 p"
  shows "S1 = S2"
proof (rule nth_equalityI)
  show "length S1 = length S2" by fact
next
  fix t
  assume t: "t < length S1"
  show "S1 ! t = S2 ! t"
  proof (cases "S1 ! t")
    case None
    then show ?thesis using assms(2) [of t] by simp
  next
    case (Some cs1)
    then obtain cs2 where cs2: "S2 ! t = Some cs2" and len: "length cs2 = length cs1"
      using assms(2) [of t] by (cases "S2 ! t") auto
    have "cs1 = cs2"
    proof (rule nth_equalityI)
      show "length cs1 = length cs2" using len by simp
    next
      fix i
      assume i: "i < length cs1"
      have "load_cell S1 (Ptr t (int i)) = Inr (cs1 ! i)"
        using t Some i by simp
      moreover have "load_cell S2 (Ptr t (int i)) = Inr (cs2 ! i)"
        using t assms(1) cs2 i len by simp
      ultimately show "cs1 ! i = cs2 ! i"
        using assms(3) [of "Ptr t (int i)"] by simp
    qed
    then show ?thesis using Some cs2 by simp
  qed
qed

lemma load_row_Inr:
  "load_row H p = Inr q \<longleftrightarrow> load_cell (tabs H) p = Inr (Some q)"
  by (auto simp: load_row_def bind_err_eq_Inr split: option.splits)

lemma store_row_Inr:
  "store_row H p q = Inr H' \<longleftrightarrow> (\<exists>S'. store_cell (tabs H) p (Some q) = Inr S' \<and> H' = H\<lparr>tabs := S'\<rparr>)"
  by (auto simp: store_row_def bind_err_eq_Inr)

lemma store_elem_Inr:
  "store_elem H p v = Inr H' \<longleftrightarrow> (\<exists>S'. store_cell (elems H) p v = Inr S' \<and> H' = H\<lparr>elems := S'\<rparr>)"
  by (auto simp: store_elem_def bind_err_eq_Inr)

lemma store_row_same: "store_row H p q = Inr H' \<Longrightarrow> load_row H' p = Inr q"
  by (auto simp: store_row_Inr load_row_def store_cell_same)

lemma store_row_other: "store_row H p q = Inr H' \<Longrightarrow> p' \<noteq> p \<Longrightarrow> load_row H' p' = load_row H p'"
  by (auto simp: store_row_Inr load_row_def store_cell_other)

lemma store_elem_same: "store_elem H p v = Inr H' \<Longrightarrow> load_elem H' p = Inr v"
  by (auto simp: store_elem_Inr load_elem_def store_cell_same)

lemma store_elem_other: "store_elem H p v = Inr H' \<Longrightarrow> p' \<noteq> p \<Longrightarrow> load_elem H' p' = load_elem H p'"
  by (auto simp: store_elem_Inr load_elem_def store_cell_other)



lemma store_elem_shape:
  assumes "store_elem H p v = Inr H'"
  shows "tabs H' = tabs H \<and> limit H' = limit H \<and> length (elems H') = length (elems H)
     \<and> (\<forall>t. map_option length (elems H' ! t) = map_option length (elems H ! t))"
proof -
  from assms obtain S' where sc: "store_cell (elems H) p v = Inr S'" and H': "H' = H\<lparr>elems := S'\<rparr>"
    by (auto simp: store_elem_Inr)
  show ?thesis using store_cell_frame(1,3) [OF sc] H' by simp
qed

lemma load_row_tabs: "tabs H' = tabs H \<Longrightarrow> load_row H' p = load_row H p"
  by (simp add: load_row_def)


lemma heap_ext:
  fixes H1 H2 :: "'a heap"
  assumes "tabs H1 = tabs H2" and "limit H1 = limit H2"
    and "length (elems H1) = length (elems H2)"
    and "\<And>t. map_option length (elems H1 ! t) = map_option length (elems H2 ! t)"
    and "\<And>p. load_elem H1 p = load_elem H2 p"
  shows "H1 = H2"
proof -
  have "elems H1 = elems H2"
    using assms(3,4,5) by (intro store_ext) (simp_all add: load_elem_def)
  then show ?thesis using assms(1,2) by simp
qed

lemma new_rows_Inr:
  "new_rows H n = Inr (p, H') \<longleftrightarrow>
     n \<le> limit H \<and> p = Ptr (length (tabs H)) 0
       \<and> H' = H\<lparr>tabs := tabs H @ [Some (replicate n None)]\<rparr>"
  by (auto simp: new_rows_def new_block_def)

lemma new_elems_Inr:
  "new_elems H n = Inr (p, H') \<longleftrightarrow>
     n \<le> limit H \<and> p = Ptr (length (elems H)) 0
       \<and> H' = H\<lparr>elems := elems H @ [Some (replicate n None)]\<rparr>"
  by (auto simp: new_elems_def new_block_def)

lemma delete_block_Inr:
  "delete_block S p = Inr S' \<longleftrightarrow>
     (p = Null \<and> S' = S) \<or> (\<exists>b. p = Ptr b 0 \<and> b < length S \<and> S ! b \<noteq> None \<and> S' = S[b := None])"
  by (cases p) auto

lemma delete_block_releasable: "releasable S p \<Longrightarrow> \<exists>S'. delete_block S p = Inr S'"
  by (cases p) (simp_all add: releasable_def)

lemma delete_rows_Inr:
  "delete_rows H p = Inr H' \<longleftrightarrow> (\<exists>S'. delete_block (tabs H) p = Inr S' \<and> H' = H\<lparr>tabs := S'\<rparr>)"
  by (auto simp: delete_rows_def bind_err_eq_Inr)

lemma delete_elems_Inr:
  "delete_elems H p = Inr H' \<longleftrightarrow> (\<exists>S'. delete_block (elems H) p = Inr S' \<and> H' = H\<lparr>elems := S'\<rparr>)"
  by (auto simp: delete_elems_def bind_err_eq_Inr)

section \<open>The loops over rows and elements\<close>

text \<open>A loop that writes \<open>f i\<close> to \<open>r[i]\<close>, as the three loops over the rows do.\<close>

lemma store_rows_loop:
  assumes "for_loop 0 n (\<lambda>i Hi. store_row Hi (ptr_add r (int i)) (f i)) H = Inr H'"
  shows "elems H' = elems H \<and> limit H' = limit H \<and> length (tabs H') = length (tabs H)
     \<and> (\<forall>i<n. load_row H' (ptr_add r (int i)) = Inr (f i))
     \<and> (\<forall>t. (\<forall>j. r \<noteq> Ptr t j) \<longrightarrow> tabs H' ! t = tabs H ! t)
     \<and> (\<forall>t. map_option length (tabs H' ! t) = map_option length (tabs H ! t))"
proof (rule for_loop_rule [OF assms, where I = "\<lambda>k Hk.
     elems Hk = elems H \<and> limit Hk = limit H \<and> length (tabs Hk) = length (tabs H)
     \<and> (\<forall>i<k. load_row Hk (ptr_add r (int i)) = Inr (f i))
     \<and> (\<forall>t. (\<forall>j. r \<noteq> Ptr t j) \<longrightarrow> tabs Hk ! t = tabs H ! t)
     \<and> (\<forall>t. map_option length (tabs Hk ! t) = map_option length (tabs H ! t))"])
  show "elems H = elems H \<and> limit H = limit H \<and> length (tabs H) = length (tabs H)
     \<and> (\<forall>i<0. load_row H (ptr_add r (int i)) = Inr (f i))
     \<and> (\<forall>t. (\<forall>j. r \<noteq> Ptr t j) \<longrightarrow> tabs H ! t = tabs H ! t)
     \<and> (\<forall>t. map_option length (tabs H ! t) = map_option length (tabs H ! t))"
    by simp
  show "0 \<le> n" by simp
next
  fix k Hk Hk'
  assume k: "k < n"
    and I: "elems Hk = elems H \<and> limit Hk = limit H \<and> length (tabs Hk) = length (tabs H)
     \<and> (\<forall>i<k. load_row Hk (ptr_add r (int i)) = Inr (f i))
     \<and> (\<forall>t. (\<forall>j. r \<noteq> Ptr t j) \<longrightarrow> tabs Hk ! t = tabs H ! t)
     \<and> (\<forall>t. map_option length (tabs Hk ! t) = map_option length (tabs H ! t))"
    and st: "store_row Hk (ptr_add r (int k)) (f k) = Inr Hk'"
  from st obtain S' where sc: "store_cell (tabs Hk) (ptr_add r (int k)) (Some (f k)) = Inr S'"
    and Hk': "Hk' = Hk\<lparr>tabs := S'\<rparr>"
    by (auto simp: store_row_Inr)
  from sc have rn: "r \<noteq> Null" by (auto simp: store_cell_Inr)
  have new: "load_row Hk' (ptr_add r (int k)) = Inr (f k)"
    using st by (rule store_row_same)
  have old: "load_row Hk' (ptr_add r (int i)) = Inr (f i)" if "i < k" for i
  proof -
    have "ptr_add r (int i) \<noteq> ptr_add r (int k)"
      using that rn by (simp add: ptr_add_eq_iff)
    then show ?thesis using store_row_other [OF st] I that by simp
  qed
  have fr: "tabs Hk' ! t = tabs H ! t" if "\<forall>j. r \<noteq> Ptr t j" for t
  proof -
    have "\<And>j. ptr_add r (int k) \<noteq> Ptr t j" using that by (simp add: ptr_add_eq_Ptr)
    then have "S' ! t = tabs Hk ! t" using store_cell_frame(2) [OF sc] by blast
    then show ?thesis using I that Hk' by simp
  qed
  have sh: "map_option length (tabs Hk' ! t) = map_option length (tabs H ! t)" for t
    using store_cell_frame(3) [OF sc, of t] I Hk' by simp
  have "\<forall>i<Suc k. load_row Hk' (ptr_add r (int i)) = Inr (f i)"
    using new old by (auto simp: less_Suc_eq)
  then show "elems Hk' = elems H \<and> limit Hk' = limit H \<and> length (tabs Hk') = length (tabs H)
     \<and> (\<forall>i<Suc k. load_row Hk' (ptr_add r (int i)) = Inr (f i))
     \<and> (\<forall>t. (\<forall>j. r \<noteq> Ptr t j) \<longrightarrow> tabs Hk' ! t = tabs H ! t)
     \<and> (\<forall>t. map_option length (tabs Hk' ! t) = map_option length (tabs H ! t))"
    using I Hk' fr sh store_cell_frame(1) [OF sc] by simp
qed

text \<open>A loop that writes \<open>f k\<close> to \<open>p[k]\<close>, as \<^verbatim>\<open>fill\<close> and \<^verbatim>\<open>memset\<close> do.\<close>

lemma store_elems_loop:
  assumes "for_loop 0 n (\<lambda>k Hk. store_elem Hk (ptr_add p (int k)) (f k)) H = Inr H'"
  shows "tabs H' = tabs H \<and> limit H' = limit H \<and> length (elems H') = length (elems H)
     \<and> (\<forall>k<n. load_elem H' (ptr_add p (int k)) = Inr (f k))
     \<and> (\<forall>q. (\<forall>k<n. q \<noteq> ptr_add p (int k)) \<longrightarrow> load_elem H' q = load_elem H q)
     \<and> (\<forall>t. (\<forall>j. p \<noteq> Ptr t j) \<longrightarrow> elems H' ! t = elems H ! t)
     \<and> (\<forall>t. map_option length (elems H' ! t) = map_option length (elems H ! t))"
proof (rule for_loop_rule [OF assms, where I = "\<lambda>m Hm.
     tabs Hm = tabs H \<and> limit Hm = limit H \<and> length (elems Hm) = length (elems H)
     \<and> (\<forall>k<m. load_elem Hm (ptr_add p (int k)) = Inr (f k))
     \<and> (\<forall>q. (\<forall>k<m. q \<noteq> ptr_add p (int k)) \<longrightarrow> load_elem Hm q = load_elem H q)
     \<and> (\<forall>t. (\<forall>j. p \<noteq> Ptr t j) \<longrightarrow> elems Hm ! t = elems H ! t)
     \<and> (\<forall>t. map_option length (elems Hm ! t) = map_option length (elems H ! t))"])
  show "tabs H = tabs H \<and> limit H = limit H \<and> length (elems H) = length (elems H)
     \<and> (\<forall>k<0. load_elem H (ptr_add p (int k)) = Inr (f k))
     \<and> (\<forall>q. (\<forall>k<0. q \<noteq> ptr_add p (int k)) \<longrightarrow> load_elem H q = load_elem H q)
     \<and> (\<forall>t. (\<forall>j. p \<noteq> Ptr t j) \<longrightarrow> elems H ! t = elems H ! t)
     \<and> (\<forall>t. map_option length (elems H ! t) = map_option length (elems H ! t))"
    by simp
  show "0 \<le> n" by simp
next
  fix m Hm Hm'
  assume m: "m < n"
    and I: "tabs Hm = tabs H \<and> limit Hm = limit H \<and> length (elems Hm) = length (elems H)
     \<and> (\<forall>k<m. load_elem Hm (ptr_add p (int k)) = Inr (f k))
     \<and> (\<forall>q. (\<forall>k<m. q \<noteq> ptr_add p (int k)) \<longrightarrow> load_elem Hm q = load_elem H q)
     \<and> (\<forall>t. (\<forall>j. p \<noteq> Ptr t j) \<longrightarrow> elems Hm ! t = elems H ! t)
     \<and> (\<forall>t. map_option length (elems Hm ! t) = map_option length (elems H ! t))"
    and st: "store_elem Hm (ptr_add p (int m)) (f m) = Inr Hm'"
  from st obtain S' where sc: "store_cell (elems Hm) (ptr_add p (int m)) (f m) = Inr S'"
    and Hm': "Hm' = Hm\<lparr>elems := S'\<rparr>"
    by (auto simp: store_elem_Inr)
  from sc have pn: "p \<noteq> Null" by (auto simp: store_cell_Inr)
  have new: "load_elem Hm' (ptr_add p (int m)) = Inr (f m)"
    using st by (rule store_elem_same)
  have old: "load_elem Hm' (ptr_add p (int k)) = Inr (f k)" if "k < m" for k
  proof -
    have "ptr_add p (int k) \<noteq> ptr_add p (int m)"
      using that pn by (simp add: ptr_add_eq_iff)
    then show ?thesis using store_elem_other [OF st] I that by simp
  qed
  have cells: "load_elem Hm' q = load_elem H q" if "\<forall>k<Suc m. q \<noteq> ptr_add p (int k)" for q
  proof -
    have "load_elem Hm' q = load_elem Hm q"
      using store_elem_other [OF st, of q] that by simp
    then show ?thesis using I that by simp
  qed
  have fr: "elems Hm' ! t = elems H ! t" if "\<forall>j. p \<noteq> Ptr t j" for t
  proof -
    have "\<And>j. ptr_add p (int m) \<noteq> Ptr t j" using that by (simp add: ptr_add_eq_Ptr)
    then have "S' ! t = elems Hm ! t" using store_cell_frame(2) [OF sc] by blast
    then show ?thesis using I that Hm' by simp
  qed
  have sh: "map_option length (elems Hm' ! t) = map_option length (elems H ! t)" for t
    using store_cell_frame(3) [OF sc, of t] I Hm' by simp
  have "\<forall>k<Suc m. load_elem Hm' (ptr_add p (int k)) = Inr (f k)"
    using new old by (auto simp: less_Suc_eq)
  then show "tabs Hm' = tabs H \<and> limit Hm' = limit H \<and> length (elems Hm') = length (elems H)
     \<and> (\<forall>k<Suc m. load_elem Hm' (ptr_add p (int k)) = Inr (f k))
     \<and> (\<forall>q. (\<forall>k<Suc m. q \<noteq> ptr_add p (int k)) \<longrightarrow> load_elem Hm' q = load_elem H q)
     \<and> (\<forall>t. (\<forall>j. p \<noteq> Ptr t j) \<longrightarrow> elems Hm' ! t = elems H ! t)
     \<and> (\<forall>t. map_option length (elems Hm' ! t) = map_option length (elems H ! t))"
    using I Hm' cells fr sh store_cell_frame(1) [OF sc] by simp
qed

lemma memset_zero_Inr:
  assumes "memset_zero H p n = Inr H'"
  shows "tabs H' = tabs H \<and> limit H' = limit H \<and> length (elems H') = length (elems H)
     \<and> (\<forall>k<n. load_elem H' (ptr_add p (int k)) = Inr (Some 0))
     \<and> (\<forall>q. (\<forall>k<n. q \<noteq> ptr_add p (int k)) \<longrightarrow> load_elem H' q = load_elem H q)
     \<and> (\<forall>t. (\<forall>j. p \<noteq> Ptr t j) \<longrightarrow> elems H' ! t = elems H ! t)
     \<and> (\<forall>t. map_option length (elems H' ! t) = map_option length (elems H ! t))"
  using store_elems_loop [OF assms [unfolded memset_zero_def]] .

section \<open>Reallocation and resize\<close>

lemma ar_realloc_rows_Inr:
  assumes "ar_realloc_rows H a h = Inr (H1, a1)"
  shows "elems H1 = elems H \<and> limit H1 = limit H \<and> width a1 = width a \<and> height a1 = height a
     \<and> data a1 = data a"
  using assms
  by (auto simp: ar_realloc_rows_def bind_err_eq_Inr delete_rows_Inr new_rows_Inr
      split: if_splits)

lemma ar_realloc_data_Inr:
  assumes "ar_realloc_data H a w h offset = Inr (H2, a2)"
  shows "tabs H2 = tabs H \<and> limit H2 = limit H \<and> width a2 = w \<and> height a2 = h
     \<and> rows a2 = rows a"
  using assms
  by (auto simp: ar_realloc_data_def bind_err_eq_Inr delete_elems_Inr new_elems_Inr Let_def
      split: if_splits)

lemma ar_realloc_data_kept:
  assumes "ar_realloc_data H a w h offset = Inr (H2, a2)" and "data a \<noteq> Null"
    and "keeps_data a w h"
  shows "data a2 = data a \<and> H2 = H"
  using assms
  by (auto simp: ar_realloc_data_def keeps_data_def bind_err_eq_Inr Let_def split: if_splits)

lemma ar_realloc_data_fresh:
  assumes "ar_realloc_data H a w h offset = Inr (H2, a2)" and "data a \<noteq> Null"
    and "\<not> keeps_data a w h"
  shows "data a2 = Ptr (length (elems H)) 0 \<and> data a2 \<noteq> data a
     \<and> (\<exists>b. data a = Ptr b 0 \<and> b < length (elems H) \<and> elems H ! b \<noteq> None
           \<and> elems H2 = (elems H)[b := None] @ [Some (replicate (size_plus_int (size_mul h w) offset) None)])"
  using assms
  by (auto simp: ar_realloc_data_def keeps_data_def bind_err_eq_Inr Let_def delete_elems_Inr
      delete_block_Inr new_elems_Inr split: if_splits)

lemma ar_realloc_data_null:
  assumes "ar_realloc_data H a w h offset = Inr (H2, a2)" and "data a = Null"
  shows "data a2 = Ptr (length (elems H)) 0
     \<and> elems H2 = elems H @ [Some (replicate (size_plus_int (size_mul h w) offset) None)]"
  using assms
  by (auto simp: ar_realloc_data_def bind_err_eq_Inr Let_def new_elems_Inr split: if_splits)

lemma set_rows_Inr:
  assumes "set_rows H a offset = Inr H'"
  shows "elems H' = elems H \<and> limit H' = limit H \<and> length (tabs H') = length (tabs H)
     \<and> (\<forall>i<height a. load_row H' (ptr_add (rows a) (int i)) =
            Inr (ptr_add (ptr_add (data a) offset) (int (size_mul (width a) i))))
     \<and> (\<forall>t. (\<forall>j. rows a \<noteq> Ptr t j) \<longrightarrow> tabs H' ! t = tabs H ! t)
     \<and> (\<forall>t. map_option length (tabs H' ! t) = map_option length (tabs H ! t))"
  using store_rows_loop [OF assms [unfolded set_rows_def]] .

lemma ar_realloc_Inr:
  assumes "ar_realloc H a w h offset = Inr (H', a')"
  shows "width a' = w \<and> height a' = h \<and> limit H' = limit H
     \<and> (\<forall>i<h. load_row H' (ptr_add (rows a') (int i)) =
            Inr (ptr_add (ptr_add (data a') offset) (int (size_mul w i))))"
proof -
  from assms obtain H1 a1 H2 where
    1: "ar_realloc_rows H a h = Inr (H1, a1)" and
    2: "ar_realloc_data H1 a1 w h offset = Inr (H2, a')" and
    3: "set_rows H2 a' offset = Inr H'"
    by (auto simp: ar_realloc_def bind_err_eq_Inr)
  show ?thesis
    using ar_realloc_rows_Inr [OF 1] ar_realloc_data_Inr [OF 2] set_rows_Inr [OF 3] by simp
qed

lemma ar_realloc_data_ptr:
  assumes "ar_realloc H a w h offset = Inr (H', a')"
  shows "\<exists>H1 a1 H2. ar_realloc_data H1 a1 w h offset = Inr (H2, a') \<and> elems H1 = elems H
     \<and> data a1 = data a \<and> width a1 = width a \<and> height a1 = height a \<and> elems H' = elems H2"
proof -
  from assms obtain H1 a1 H2 where
    1: "ar_realloc_rows H a h = Inr (H1, a1)" and
    2: "ar_realloc_data H1 a1 w h offset = Inr (H2, a')" and
    3: "set_rows H2 a' offset = Inr H'"
    by (auto simp: ar_realloc_def bind_err_eq_Inr)
  show ?thesis
    using ar_realloc_rows_Inr [OF 1] 2 set_rows_Inr [OF 3] by auto
qed

lemma resize_Inr:
  assumes "resize H a w h flags offset = Inr (H', a')"
  shows "\<exists>H1. ar_realloc H a w h offset = Inr (H1, a') \<and> tabs H' = tabs H1 \<and> limit H' = limit H1
     \<and> length (elems H') = length (elems H1)
     \<and> (\<forall>t. map_option length (elems H' ! t) = map_option length (elems H1 ! t))
     \<and> (\<forall>t. (\<forall>j. data a' \<noteq> Ptr t j) \<longrightarrow> elems H' ! t = elems H1 ! t)
     \<and> (flags AND ARRAY2D_CLEAR_DATA = 0 \<longrightarrow> H' = H1)"
proof -
  from assms obtain H1 where 1: "ar_realloc H a w h offset = Inr (H1, a')"
    and 2: "if flags AND ARRAY2D_CLEAR_DATA \<noteq> 0
            then memset_zero H1 (ptr_add (data a') offset) (size_mul (width a') (height a')) = Inr H'
            else H' = H1"
    by (auto simp: resize_def bind_err_eq_Inr split: if_splits)
  show ?thesis
  proof (cases "flags AND ARRAY2D_CLEAR_DATA = 0")
    case True
    then show ?thesis using 1 2 by auto
  next
    case False
    then have m: "memset_zero H1 (ptr_add (data a') offset) (size_mul (width a') (height a')) = Inr H'"
      using 2 by simp
    have "\<And>t. (\<forall>j. data a' \<noteq> Ptr t j) \<Longrightarrow> (\<forall>j. ptr_add (data a') offset \<noteq> Ptr t j)"
      by (simp add: ptr_add_eq_Ptr)
    then show ?thesis using 1 memset_zero_Inr [OF m] False by auto
  qed
qed

lemma resize_rows:
  assumes "resize H a w h flags offset = Inr (H', a')"
  shows "width a' = w \<and> height a' = h \<and> limit H' = limit H
     \<and> (\<forall>i<h. load_row H' (ptr_add (rows a') (int i)) =
            Inr (ptr_add (ptr_add (data a') offset) (int (size_mul w i))))"
proof -
  from resize_Inr [OF assms] obtain H1 where 1: "ar_realloc H a w h offset = Inr (H1, a')"
    and 2: "tabs H' = tabs H1" "limit H' = limit H1" by blast
  show ?thesis
    using ar_realloc_Inr [OF 1] 2 by (simp add: load_row_tabs [OF 2(1)])
qed


text \<open>The resize of an instance whose two pointers are null, as the empty declaration is.\<close>

lemma resize_null_Inr:
  fixes H :: "('a::zero) heap"
  assumes "resize H a w h flags offset = Inr (H', a')"
    and "rows a = Null" and "data a = Null"
  shows "width a' = w \<and> height a' = h \<and> rows a' = Ptr (length (tabs H)) 0
     \<and> data a' = Ptr (length (elems H)) 0
     \<and> limit H' = limit H
     \<and> length (elems H') = Suc (length (elems H))
     \<and> (\<forall>b<length (elems H). elems H' ! b = elems H ! b)
     \<and> map_option length (elems H' ! length (elems H)) =
          Some (size_plus_int (size_mul h w) offset)
     \<and> length (tabs H') = Suc (length (tabs H))
     \<and> (\<forall>t<length (tabs H). tabs H' ! t = tabs H ! t)
     \<and> (\<forall>i<h. load_row H' (Ptr (length (tabs H)) (int i)) =
            Inr (Ptr (length (elems H)) (offset + int (size_mul w i))))"
proof -
  let ?ne = "length (elems H)" and ?nt = "length (tabs H)"
  from resize_Inr [OF assms(1)] obtain H3 where
    r: "ar_realloc H a w h offset = Inr (H3, a')"
    and z: "tabs H' = tabs H3" "limit H' = limit H3" "length (elems H') = length (elems H3)"
      "\<forall>t. map_option length (elems H' ! t) = map_option length (elems H3 ! t)"
      "\<forall>t. (\<forall>j. data a' \<noteq> Ptr t j) \<longrightarrow> elems H' ! t = elems H3 ! t"
    by blast
  let ?H2 = "H\<lparr>tabs := tabs H @ [Some (replicate h None)],
                elems := elems H @ [Some (replicate (size_plus_int (size_mul h w) offset) None)]\<rparr>"
  from r have a': "width a' = w \<and> height a' = h \<and> rows a' = Ptr ?nt 0 \<and> data a' = Ptr ?ne 0"
    and loop: "set_rows ?H2 a' offset = Inr H3"
    using assms(2,3)
    by (auto simp: ar_realloc_def ar_realloc_rows_def ar_realloc_data_def bind_err_eq_Inr
        new_rows_Inr new_elems_Inr Let_def)
  note l = set_rows_Inr [OF loop]
  have old3: "tabs H3 ! t = tabs H ! t" if "t < ?nt" for t
  proof -
    have "\<forall>j. rows a' \<noteq> Ptr t j" using that a' by simp
    then have "tabs H3 ! t = tabs ?H2 ! t" using l by blast
    then show ?thesis using that by (simp add: nth_append)
  qed
  have rows3: "load_row H3 (Ptr ?nt (int i)) = Inr (Ptr ?ne (offset + int (size_mul w i)))"
    if "i < h" for i
    using l that a' by simp
  have olde: "elems H' ! b = elems H ! b" if "b < ?ne" for b
  proof -
    have "\<forall>j. data a' \<noteq> Ptr b j" using that a' by simp
    then have "elems H' ! b = elems H3 ! b" using z by blast
    then show ?thesis using l that by (simp add: nth_append)
  qed
  have "map_option length (elems H' ! ?ne) = Some (size_plus_int (size_mul h w) offset)"
    using z l by simp
  moreover have "load_row H' p = load_row H3 p" for p
    using z by (simp add: load_row_def)
  ultimately show ?thesis
    using a' z l old3 rows3 olde by simp
qed






text \<open>What the resize leaves in the array: zeros where it cleared, nothing written otherwise.\<close>

lemma resize_cleared:
  fixes H :: "('a::zero) heap"
  assumes "resize H a w h flags offset = Inr (H', a')"
    and "flags AND ARRAY2D_CLEAR_DATA \<noteq> 0"
  shows "\<forall>k < size_mul w h.
      load_elem H' (ptr_add (ptr_add (data a') offset) (int k)) = Inr (Some 0)"
proof -
  from assms obtain H1 where 1: "ar_realloc H a w h offset = Inr (H1, a')"
    and m: "memset_zero H1 (ptr_add (data a') offset) (size_mul (width a') (height a')) = Inr H'"
    by (auto simp: resize_def bind_err_eq_Inr split: if_splits)
  have "width a' = w" "height a' = h" using ar_realloc_Inr [OF 1] by simp_all
  then show ?thesis using memset_zero_Inr [OF m] by simp
qed

lemma resize_null_fresh:
  fixes H :: "('a::zero) heap"
  assumes "resize H a w h flags offset = Inr (H', a')"
    and "rows a = Null" and "data a = Null"
    and "flags AND ARRAY2D_CLEAR_DATA = 0"
  shows "elems H' = elems H @ [Some (replicate (size_plus_int (size_mul h w) offset) None)]"
proof -
  from resize_Inr [OF assms(1)] assms(4) have r: "ar_realloc H a w h offset = Inr (H', a')"
    by auto
  from r obtain H1 a1 H2 where
    1: "ar_realloc_rows H a h = Inr (H1, a1)" and
    2: "ar_realloc_data H1 a1 w h offset = Inr (H2, a')" and
    3: "set_rows H2 a' offset = Inr H'"
    by (auto simp: ar_realloc_def bind_err_eq_Inr)
  note f1 = ar_realloc_rows_Inr [OF 1]
  have "data a1 = Null" using f1 assms(3) by simp
  from ar_realloc_data_null [OF 2 this] show ?thesis
    using f1 set_rows_Inr [OF 3] by simp
qed

section \<open>Release\<close>

lemma free_again:
  "free H (a\<lparr>data := Null, rows := Null\<rparr>) = Inr (H, a\<lparr>data := Null, rows := Null\<rparr>)"
  by (simp add: free_def delete_elems_def delete_rows_def)

lemma free_total:
  assumes "releasable (elems H) (data a)" and "releasable (tabs H) (rows a)"
  shows "\<exists>H'. free H a = Inr (H', a\<lparr>data := Null, rows := Null\<rparr>)"
proof -
  obtain S1 where 1: "delete_block (elems H) (data a) = Inr S1"
    using delete_block_releasable [OF assms(1)] by blast
  obtain S2 where 2: "delete_block (tabs H) (rows a) = Inr S2"
    using delete_block_releasable [OF assms(2)] by blast
  show ?thesis
    by (simp add: free_def delete_elems_def delete_rows_def 1 2)
qed

lemma destroy_as_free:
  "array2D_destroy H a = bind_err (free H a) (\<lambda>(H', a'). Inr H')"
  by (cases "delete_elems H (data a)")
    (auto simp: array2D_destroy_def free_def Let_def bind_err_def split: sum.splits)

section \<open>Fill\<close>

lemma fill_seq_par: "for_loop i n (fill_body a val) H = fill_par H a val [i..<n]"
proof (induction i n "fill_body a val" H rule: for_loop.induct)
  case (1 i n H)
  show ?case
  proof (cases "i < n")
    case True
    have "for_loop i n (fill_body a val) H =
        bind_err (fill_body a val i H) (\<lambda>H1. fill_par H1 a val [Suc i..<n])"
      using "1.hyps" [OF True] True by (simp add: for_loop_step bind_err_def split: sum.splits)
    then show ?thesis using True by (simp add: upt_conv_Cons)
  next
    case False
    then show ?thesis by (simp add: for_loop_done)
  qed
qed

lemma fill_sequential: "fill H a val False sched = fill_par H a val [0..<size_mul (width a) (height a)]"
  by (simp add: fill_def fill_seq_par)

lemma fill_parallel: "fill H a val True sched = fill_par H a val sched"
  by (simp add: fill_def)

lemma fill_as_par:
  "fill H a val multiThread sched =
     fill_par H a val (if multiThread then sched else [0..<size_mul (width a) (height a)])"
  by (cases multiThread) (simp_all add: fill_sequential fill_parallel)

lemma fill_par_null:
  assumes "data a = Null"
  shows "fill_par H a val sched = (if sched = [] then Inr H else Inl Null_deref)"
  using assms by (cases sched) (simp_all add: fill_body_def store_elem_def)

lemma fill_par_Inr:
  assumes "fill_par H a val sched = Inr H'"
  shows "tabs H' = tabs H \<and> limit H' = limit H \<and> length (elems H') = length (elems H)
     \<and> (\<forall>k\<in>set sched. load_elem H' (ptr_add (data a) (int k)) = Inr (Some val))
     \<and> (\<forall>q. (\<forall>k\<in>set sched. q \<noteq> ptr_add (data a) (int k)) \<longrightarrow> load_elem H' q = load_elem H q)
     \<and> (\<forall>t. (\<forall>j. data a \<noteq> Ptr t j) \<longrightarrow> elems H' ! t = elems H ! t)
     \<and> (\<forall>t. map_option length (elems H' ! t) = map_option length (elems H ! t))"
  using assms
proof (induction sched arbitrary: H)
  case Nil
  then show ?case by simp
next
  case (Cons i sched)
  from Cons.prems obtain H1 where st: "store_elem H (ptr_add (data a) (int i)) (Some val) = Inr H1"
    and rest: "fill_par H1 a val sched = Inr H'"
    by (auto simp: bind_err_eq_Inr fill_body_def)
  from st obtain S' where sc: "store_cell (elems H) (ptr_add (data a) (int i)) (Some val) = Inr S'"
    and H1: "H1 = H\<lparr>elems := S'\<rparr>"
    by (auto simp: store_elem_Inr)
  note IH = Cons.IH [OF rest]
  have here: "load_elem H' (ptr_add (data a) (int i)) = Inr (Some val)"
  proof (cases "i \<in> set sched")
    case True
    then show ?thesis using IH by simp
  next
    case False
    from sc have "data a \<noteq> Null" by (auto simp: store_cell_Inr)
    then have "\<forall>k\<in>set sched. ptr_add (data a) (int i) \<noteq> ptr_add (data a) (int k)"
      using False by (auto simp: ptr_add_eq_iff)
    then have "load_elem H' (ptr_add (data a) (int i)) = load_elem H1 (ptr_add (data a) (int i))"
      using IH by blast
    then show ?thesis using store_elem_same [OF st] by simp
  qed
  have cells: "load_elem H' q = load_elem H q"
    if "\<forall>k\<in>set (i # sched). q \<noteq> ptr_add (data a) (int k)" for q
  proof -
    have "load_elem H' q = load_elem H1 q" using IH that by simp
    then show ?thesis using store_elem_other [OF st, of q] that by simp
  qed
  have fr: "elems H' ! t = elems H ! t" if "\<forall>j. data a \<noteq> Ptr t j" for t
  proof -
    have "\<And>j. ptr_add (data a) (int i) \<noteq> Ptr t j" using that by (simp add: ptr_add_eq_Ptr)
    then have "S' ! t = elems H ! t" using store_cell_frame(2) [OF sc] by blast
    then show ?thesis using IH that H1 by simp
  qed
  have sh: "map_option length (elems H' ! t) = map_option length (elems H ! t)" for t
    using store_cell_frame(3) [OF sc, of t] IH H1 by simp
  show ?case
    using IH H1 here cells fr sh store_cell_frame(1) [OF sc] by simp
qed

lemma fill_par_total:
  assumes "data a = Ptr b 0" and "b < length (elems H)" and "elems H ! b = Some cs"
    and "\<forall>k\<in>set sched. k < length cs"
  shows "\<exists>H'. fill_par H a val sched = Inr H'"
  using assms
proof (induction sched arbitrary: H cs)
  case Nil
  then show ?case by simp
next
  case (Cons i sched)
  let ?H1 = "H\<lparr>elems := (elems H)[b := Some (cs[i := Some val])]\<rparr>"
  have st: "fill_body a val i H = Inr ?H1"
    using Cons.prems by (simp add: fill_body_def store_elem_def)
  have "\<exists>H'. fill_par ?H1 a val sched = Inr H'"
    using Cons.prems by (intro Cons.IH [where cs = "cs[i := Some val]"]) simp_all
  then show ?case using st by simp
qed

lemma fill_par_same_set:
  assumes "fill_par H a val s1 = Inr H1" and "fill_par H a val s2 = Inr H2"
    and "set s1 = set s2"
  shows "H1 = H2"
proof (rule heap_ext)
  note f1 = fill_par_Inr [OF assms(1)] and f2 = fill_par_Inr [OF assms(2)]
  show "tabs H1 = tabs H2" "limit H1 = limit H2" "length (elems H1) = length (elems H2)"
    using f1 f2 by simp_all
  show "map_option length (elems H1 ! t) = map_option length (elems H2 ! t)" for t
    using f1 f2 by simp
  show "load_elem H1 p = load_elem H2 p" for p
  proof (cases "\<exists>k\<in>set s1. p = ptr_add (data a) (int k)")
    case True
    then obtain k where k: "k \<in> set s1" "p = ptr_add (data a) (int k)" by blast
    have "load_elem H1 p = Inr (Some val)" using f1 k by simp
    moreover have "load_elem H2 p = Inr (Some val)" using f2 k assms(3) by simp
    ultimately show ?thesis by simp
  next
    case False
    then have "load_elem H1 p = load_elem H p" using f1 by blast
    moreover have "load_elem H2 p = load_elem H p" using f2 False assms(3) by blast
    ultimately show ?thesis by simp
  qed
qed

lemma schedule_empty_iff:
  "is_schedule a sched \<Longrightarrow> sched = [] \<longleftrightarrow> size_mul (width a) (height a) = 0"
proof -
  assume "is_schedule a sched"
  then have "set sched = {..<size_mul (width a) (height a)}"
    by (simp add: is_schedule_def)
  moreover have "sched = [] \<longleftrightarrow> set sched = {}" by simp
  ultimately show ?thesis by (simp only: lessThan_empty_iff)
qed

section \<open>Owning instances\<close>

lemma owningD:
  assumes "owning H a offset"
  shows "width a * height a < SIZE_MOD" and "0 \<le> offset"
    and "\<exists>b cs. data a = Ptr b 0 \<and> b < length (elems H) \<and> elems H ! b = Some cs
           \<and> nat offset + width a * height a \<le> length cs"
    and "\<And>y. y < height a \<Longrightarrow>
           op_index H a y = Inr (ptr_add (data a) (offset + int (width a * y)))"
  using assms by (auto simp: owning_def split: ptr.splits option.splits)

lemma owningI:
  assumes "width a * height a < SIZE_MOD" and "0 \<le> offset"
    and "data a = Ptr b 0" and "b < length (elems H)" and "elems H ! b = Some cs"
    and "nat offset + width a * height a \<le> length cs"
    and "\<And>y. y < height a \<Longrightarrow>
           op_index H a y = Inr (ptr_add (data a) (offset + int (width a * y)))"
  shows "owning H a offset"
  using assms by (simp add: owning_def)

lemma cell_index_less:
  fixes w h x y :: nat
  assumes "y < h" and "x < w"
  shows "w * y + x < w * h"
proof -
  have "w * y + x < w * y + w" using assms by simp
  also have "\<dots> = w * Suc y" by simp
  also have "\<dots> \<le> w * h" using assms by (intro mult_le_mono2) simp
  finally show ?thesis .
qed

lemma cell_index_inj:
  fixes w x y x' y' :: nat
  assumes "x < w" and "x' < w" and "w * y + x = w * y' + x'"
  shows "y = y' \<and> x = x'"
proof -
  have a: "(w * y + x) div w = y" using assms(1) by simp
  have b: "(w * y' + x') div w = y'" using assms(2) by simp
  have "y = (w * y + x) div w" using a by (rule sym)
  also have "\<dots> = (w * y' + x') div w" by (simp only: assms(3))
  also have "\<dots> = y'" by (rule b)
  finally have "y = y'" .
  then show ?thesis using assms(3) by simp
qed

lemma op_index_tabs: "tabs H' = tabs H \<Longrightarrow> op_index H' a y = op_index H a y"
  by (simp add: op_index_def load_row_def)

lemma owning_get_at:
  assumes "owning H a offset" and "y < height a"
  shows "get_at H a y x = load_elem H (ptr_add (data a) (offset + int (width a * y) + int x))"
  using owningD(4) [OF assms] by (simp add: get_at_def ptr_add_add)

lemma owning_frame:
  assumes "owning H a offset" and "tabs H' = tabs H"
    and "length (elems H') = length (elems H)"
    and "\<And>t. map_option length (elems H' ! t) = map_option length (elems H ! t)"
  shows "owning H' a offset"
proof -
  from owningD(3) [OF assms(1)] obtain b cs where
    b: "data a = Ptr b 0" "b < length (elems H)" "elems H ! b = Some cs"
      "nat offset + width a * height a \<le> length cs"
    by blast
  obtain cs' where cs': "elems H' ! b = Some cs'" "length cs' = length cs"
    using assms(4) [of b] b by (cases "elems H' ! b") auto
  show ?thesis
  proof (rule owningI)
    show "width a * height a < SIZE_MOD" "0 \<le> offset"
      using owningD(1,2) [OF assms(1)] by simp_all
    show "data a = Ptr b 0" by fact
    show "b < length (elems H')" using b assms(3) by simp
    show "elems H' ! b = Some cs'" by fact
    show "nat offset + width a * height a \<le> length cs'" using b cs' by simp
    show "op_index H' a y = Inr (ptr_add (data a) (offset + int (width a * y)))"
      if "y < height a" for y
      using owningD(4) [OF assms(1) that] by (simp add: op_index_tabs [OF assms(2)])
  qed
qed

lemma owning_extend:
  assumes "owning H a offset"
    and "length (elems H) \<le> length (elems H')"
    and "\<And>b. b < length (elems H) \<Longrightarrow> elems H' ! b = elems H ! b"
    and "length (tabs H) \<le> length (tabs H')"
    and "\<And>t. t < length (tabs H) \<Longrightarrow> tabs H' ! t = tabs H ! t"
  shows "owning H' a offset"
proof -
  from owningD(3) [OF assms(1)] obtain b cs where
    b: "data a = Ptr b 0" "b < length (elems H)" "elems H ! b = Some cs"
      "nat offset + width a * height a \<le> length cs"
    by blast
  show ?thesis
  proof (rule owningI)
    show "width a * height a < SIZE_MOD" "0 \<le> offset"
      using owningD(1,2) [OF assms(1)] by simp_all
    show "data a = Ptr b 0" by fact
    show "b < length (elems H')" using b assms(2) by simp
    show "elems H' ! b = Some cs" using b assms(3) by simp
    show "nat offset + width a * height a \<le> length cs" by fact
    show "op_index H' a y = Inr (ptr_add (data a) (offset + int (width a * y)))"
      if "y < height a" for y
    proof -
      note oi = owningD(4) [OF assms(1) that]
      then have ld: "load_row H (ptr_add (rows a) (int y)) =
          Inr (ptr_add (data a) (offset + int (width a * y)))"
        using that by (simp add: op_index_def)
      then obtain t j where p: "ptr_add (rows a) (int y) = Ptr t j" "t < length (tabs H)"
        by (auto simp: load_row_Inr load_cell_Inr)
      then have "load_cell (tabs H') (Ptr t j) = load_cell (tabs H) (Ptr t j)"
        using assms(4,5) by simp
      then show ?thesis using ld p that by (simp add: op_index_def load_row_def)
    qed
  qed
qed


lemma sized_Inr:
  fixes H :: "('a::zero) heap"
  assumes "array2D_sized H w h flags = Inr (H', a)"
  shows "a = \<lparr>width = w, height = h, rows = Ptr (length (tabs H)) 0,
               data = Ptr (length (elems H)) 0\<rparr>
     \<and> limit H' = limit H
     \<and> length (elems H') = Suc (length (elems H))
     \<and> (\<forall>b<length (elems H). elems H' ! b = elems H ! b)
     \<and> map_option length (elems H' ! length (elems H)) = Some (size_mul h w)
     \<and> length (tabs H') = Suc (length (tabs H))
     \<and> (\<forall>t<length (tabs H). tabs H' ! t = tabs H ! t)
     \<and> (\<forall>i<h. load_row H' (Ptr (length (tabs H)) (int i)) =
            Inr (Ptr (length (elems H)) (int (size_mul i w))))"
proof -
  let ?ne = "length (elems H)" and ?nt = "length (tabs H)"
  let ?H2 = "H\<lparr>elems := elems H @ [Some (replicate (size_mul h w) None)],
                tabs := tabs H @ [Some (replicate h None)]\<rparr>"
  let ?a = "\<lparr>width = w, height = h, rows = Ptr ?nt 0, data = Ptr ?ne 0\<rparr>"
  from assms obtain H3 where a: "a = ?a"
    and loop: "for_loop 0 h (\<lambda>i Hi. store_row Hi (ptr_add (Ptr ?nt 0) (int i))
                  (ptr_add (Ptr ?ne 0) (int (size_mul i w)))) ?H2 = Inr H3"
    and fin: "if flags AND ARRAY2D_CLEAR_DATA \<noteq> 0
              then memset_zero H3 (Ptr ?ne 0) (size_mul w h) = Inr H' else H' = H3"
    by (auto simp: array2D_sized_def bind_err_eq_Inr new_elems_Inr new_rows_Inr Let_def
        split: if_splits)
  note l = store_rows_loop [OF loop]
  have e3: "elems H3 = elems ?H2" and t3: "length (tabs H3) = Suc ?nt"
    and lim3: "limit H3 = limit H"
    using l by simp_all
  have old3: "tabs H3 ! t = tabs H ! t" if "t < ?nt" for t
  proof -
    have "\<forall>j. Ptr ?nt 0 \<noteq> Ptr t j" using that by simp
    then have "tabs H3 ! t = tabs ?H2 ! t" using l by blast
    then show ?thesis using that by (simp add: nth_append)
  qed
  have rows3: "load_row H3 (Ptr ?nt (int i)) = Inr (Ptr ?ne (int (size_mul i w)))"
    if "i < h" for i
    using l that by simp
  have 3: "limit H3 = limit H \<and> length (elems H3) = Suc ?ne
     \<and> (\<forall>b<?ne. elems H3 ! b = elems H ! b)
     \<and> map_option length (elems H3 ! ?ne) = Some (size_mul h w)
     \<and> length (tabs H3) = Suc ?nt
     \<and> (\<forall>t<?nt. tabs H3 ! t = tabs H ! t)
     \<and> (\<forall>i<h. load_row H3 (Ptr ?nt (int i)) = Inr (Ptr ?ne (int (size_mul i w))))"
    using e3 t3 lim3 old3 rows3 by (simp add: nth_append)
  show ?thesis
  proof (cases "flags AND ARRAY2D_CLEAR_DATA \<noteq> 0")
    case False
    then show ?thesis using fin 3 a by simp
  next
    case True
    then have m: "memset_zero H3 (Ptr ?ne 0) (size_mul w h) = Inr H'" using fin by simp
    note z = memset_zero_Inr [OF m]
    have old: "elems H' ! b = elems H ! b" if "b < ?ne" for b
    proof -
      have "\<forall>j. Ptr ?ne 0 \<noteq> Ptr b j" using that by simp
      then have "elems H' ! b = elems H3 ! b" using z by blast
      then show ?thesis using 3 that by simp
    qed
    have "load_row H' p = load_row H3 p" for p
      using z by (simp add: load_row_def)
    then show ?thesis using z 3 a old by simp
  qed
qed

lemma sized_owning:
  fixes H :: "('a::zero) heap"
  assumes "array2D_sized H w h flags = Inr (H', a)" and "w * h < SIZE_MOD"
  shows "owning H' a 0"
proof -
  note s = sized_Inr [OF assms(1)]
  have hw: "size_mul h w = w * h" using assms(2) by (simp add: size_mul_def mult.commute)
  obtain cs where cs: "elems H' ! length (elems H) = Some cs" "length cs = w * h"
    using s hw by (cases "elems H' ! length (elems H)") auto
  show ?thesis
  proof (rule owningI)
    show "width a * height a < SIZE_MOD" using s assms(2) by simp
    show "data a = Ptr (length (elems H)) 0" using s by simp
    show "length (elems H) < length (elems H')" using s by simp
    show "elems H' ! length (elems H) = Some cs" by fact
    show "nat 0 + width a * height a \<le> length cs" using s cs by simp
    show "op_index H' a y = Inr (ptr_add (data a) (0 + int (width a * y)))"
      if "y < height a" for y
    proof -
      have "y \<le> h" using that s by simp
      then have "y * w \<le> h * w" by (rule mult_le_mono1)
      moreover have "h * w < SIZE_MOD" using assms(2) by (simp only: mult.commute [of h w])
      ultimately have "y * w < SIZE_MOD" by (rule le_less_trans)
      then have "size_mul y w = w * y" by (simp add: size_mul_def mult.commute)
      then show ?thesis using s that by (simp add: op_index_def)
    qed
  qed simp
qed

lemma resize_null_owning:
  fixes H :: "('a::zero) heap"
  assumes "resize H a w h flags offset = Inr (H', a')"
    and "rows a = Null" and "data a = Null"
    and "0 \<le> offset" and "int (w * h) + offset < int SIZE_MOD"
  shows "owning H' a' offset"
proof -
  note s = resize_null_Inr [OF assms(1,2,3)]
  have wh: "w * h < SIZE_MOD" using assms(4,5) by linarith
  then have hw: "size_mul h w = w * h" by (simp add: size_mul_def mult.commute)
  have "(int (w * h) + offset) mod int SIZE_MOD = int (w * h) + offset"
    using assms(4,5) by (intro mod_pos_pos_trivial) simp_all
  moreover have "int (w * h) + offset = int (nat offset + w * h)" using assms(4) by simp
  ultimately have "size_plus_int (size_mul h w) offset = nat (int (nat offset + w * h))"
    by (simp only: size_plus_int_def hw)
  then have sz: "size_plus_int (size_mul h w) offset = nat offset + w * h"
    by (simp only: nat_int)
  obtain cs where cs: "elems H' ! length (elems H) = Some cs" "length cs = nat offset + w * h"
    using s sz by (cases "elems H' ! length (elems H)") auto
  show ?thesis
  proof (rule owningI)
    show "width a' * height a' < SIZE_MOD" using s wh by simp
    show "0 \<le> offset" by fact
    show "data a' = Ptr (length (elems H)) 0" using s by simp
    show "length (elems H) < length (elems H')" using s by simp
    show "elems H' ! length (elems H) = Some cs" by fact
    show "nat offset + width a' * height a' \<le> length cs" using s cs by simp
    show "op_index H' a' y = Inr (ptr_add (data a') (offset + int (width a' * y)))"
      if "y < height a'" for y
    proof -
      have "y \<le> h" using that s by simp
      then have "w * y \<le> w * h" by (rule mult_le_mono2)
      then have "w * y < SIZE_MOD" using wh by (rule le_less_trans)
      then have "size_mul w y = w * y" by (simp add: size_mul_def)
      then show ?thesis using s that by (simp add: op_index_def)
    qed
  qed
qed

text \<open>A resize with the offset the instance has keeps it in good order.\<close>

lemma resize_owning:
  fixes H :: "('a::zero) heap"
  assumes r: "resize H a w h flags offset = Inr (H', a')"
    and o: "owning H a offset"
    and s: "int (w * h) + offset < int SIZE_MOD"
  shows "owning H' a' offset"
proof -
  from owningD(3) [OF o] obtain b cs where
    b: "data a = Ptr b 0" "b < length (elems H)" "elems H ! b = Some cs"
      "nat offset + width a * height a \<le> length cs"
    by blast
  have off: "0 \<le> offset" using owningD(2) [OF o] .
  have wh0: "width a * height a < SIZE_MOD" using owningD(1) [OF o] .
  have wh: "w * h < SIZE_MOD" using off s by linarith
  then have hw: "size_mul h w = w * h" by (simp add: size_mul_def mult.commute)
  have hw0: "size_mul (width a) (height a) = width a * height a"
    using wh0 by (simp add: size_mul_def)
  from resize_Inr [OF r] obtain H3 where
    ar: "ar_realloc H a w h offset = Inr (H3, a')"
    and z: "length (elems H') = length (elems H3)"
      "\<forall>t. map_option length (elems H' ! t) = map_option length (elems H3 ! t)"
    by blast
  from ar_realloc_data_ptr [OF ar] obtain H1 a1 H2 where
    d: "ar_realloc_data H1 a1 w h offset = Inr (H2, a')" and e1: "elems H1 = elems H"
    and a1: "data a1 = data a" "width a1 = width a" "height a1 = height a"
    and e3: "elems H3 = elems H2"
    by blast
  have nn: "data a1 \<noteq> Null" using a1 b by simp
  note rr = resize_rows [OF r]
  have blk: "\<exists>b' cs'. data a' = Ptr b' 0 \<and> b' < length (elems H') \<and> elems H' ! b' = Some cs'
      \<and> nat offset + w * h \<le> length cs'"
  proof (cases "keeps_data a1 w h")
    case True
    from ar_realloc_data_kept [OF d nn True] have k: "data a' = Ptr b 0" "elems H2 = elems H"
      using a1 b e1 by simp_all
    have "w * h \<le> width a * height a"
      using True a1 hw hw0 by (simp add: keeps_data_def)
    then have len: "nat offset + w * h \<le> length cs" using b by simp
    have "map_option length (elems H' ! b) = Some (length cs)"
      using z e3 k b by simp
    then obtain cs' where "elems H' ! b = Some cs'" "length cs' = length cs"
      by (cases "elems H' ! b") auto
    then show ?thesis using k b z e3 len by simp
  next
    case False
    from ar_realloc_data_fresh [OF d nn False] obtain b0 where
      k: "data a' = Ptr (length (elems H1)) 0"
        "elems H2 = (elems H1)[b0 := None] @ [Some (replicate (size_plus_int (size_mul h w) offset) None)]"
      by blast
    have "(int (w * h) + offset) mod int SIZE_MOD = int (w * h) + offset"
      using off s by (intro mod_pos_pos_trivial) simp_all
    moreover have "int (w * h) + offset = int (nat offset + w * h)" using off by simp
    ultimately have "size_plus_int (size_mul h w) offset = nat (int (nat offset + w * h))"
      by (simp only: size_plus_int_def hw)
    then have n: "size_plus_int (size_mul h w) offset = nat offset + w * h"
      by (simp only: nat_int)
    have "elems H2 ! length (elems H1) = Some (replicate (nat offset + w * h) None)"
      using k n by (simp add: nth_append)
    then have "map_option length (elems H' ! length (elems H1)) = Some (nat offset + w * h)"
      using z e3 by simp
    then obtain cs' where "elems H' ! length (elems H1) = Some cs'"
      "length cs' = nat offset + w * h"
      by (cases "elems H' ! length (elems H1)") auto
    moreover have "length (elems H1) < length (elems H')" using z e3 k by simp
    ultimately show ?thesis using k by simp
  qed
  then obtain b' cs' where b': "data a' = Ptr b' 0" "b' < length (elems H')"
    "elems H' ! b' = Some cs'" "nat offset + w * h \<le> length cs'"
    by blast
  show ?thesis
  proof (rule owningI)
    show "width a' * height a' < SIZE_MOD" using rr wh by simp
    show "0 \<le> offset" by fact
    show "data a' = Ptr b' 0" "b' < length (elems H')" "elems H' ! b' = Some cs'" by fact+
    show "nat offset + width a' * height a' \<le> length cs'" using rr b' by simp
    show "op_index H' a' y = Inr (ptr_add (data a') (offset + int (width a' * y)))"
      if "y < height a'" for y
    proof -
      have "y \<le> h" using that rr by simp
      then have "w * y \<le> w * h" by (rule mult_le_mono2)
      then have "w * y < SIZE_MOD" using wh by (rule le_less_trans)
      then have "size_mul w y = w * y" by (simp add: size_mul_def)
      then show ?thesis using rr that by (simp add: op_index_def ptr_add_add)
    qed
  qed
qed

section \<open>Construction from external rows\<close>

text \<open>Creator type 2 with \<^verbatim>\<open>ARRAY2D_BYREFERENCE\<close>.\<close>

lemma from_ref_Inr:
  assumes "array2D_from H w h source flags = Inr (H', a)"
    and "flags AND ARRAY2D_BYREFERENCE \<noteq> 0"
  shows "a = \<lparr>width = w, height = h, rows = Ptr (length (tabs H)) 0, data = Null\<rparr>
     \<and> elems H' = elems H \<and> limit H' = limit H \<and> length (tabs H') = Suc (length (tabs H))
     \<and> (\<forall>t<length (tabs H). tabs H' ! t = tabs H ! t)
     \<and> tabs H' ! length (tabs H) \<noteq> None
     \<and> (\<forall>i<h. \<exists>src. load_row H' (ptr_add (rows a) (int i)) = Inr src
            \<and> (load_row H (ptr_add source (int i)) = Inr src
                \<or> (\<forall>s j. source = Ptr s j \<longrightarrow> length (tabs H) \<le> s)))"
proof -
  let ?n = "length (tabs H)"
  let ?r = "Ptr ?n 0"
  let ?H2 = "H\<lparr>tabs := tabs H @ [Some (replicate h None)]\<rparr>"
  let ?body = "\<lambda>i Hi. bind_err (load_row Hi (ptr_add source (int i)))
                  (\<lambda>src. store_row Hi (ptr_add ?r (int i)) src)"
  let ?I = "\<lambda>k Hk. elems Hk = elems H \<and> limit Hk = limit H \<and> length (tabs Hk) = Suc ?n
     \<and> (\<forall>t<?n. tabs Hk ! t = tabs H ! t) \<and> tabs Hk ! ?n \<noteq> None
     \<and> (\<forall>i<k. \<exists>src. load_row Hk (ptr_add ?r (int i)) = Inr src
            \<and> (load_row H (ptr_add source (int i)) = Inr src
                \<or> (\<forall>s j. source = Ptr s j \<longrightarrow> ?n \<le> s)))"
  from assms have a: "a = \<lparr>width = w, height = h, rows = ?r, data = Null\<rparr>"
    and loop: "for_loop 0 h ?body ?H2 = Inr H'"
    by (auto simp: array2D_from_def bind_err_eq_Inr new_rows_Inr Let_def)
  have "?I h H'"
  proof (rule for_loop_rule [OF loop, where I = ?I])
    show "?I 0 ?H2" by (simp add: nth_append)
    show "0 \<le> h" by simp
  next
    fix k Hk Hk'
    assume k: "k < h" and I: "?I k Hk" and b: "?body k Hk = Inr Hk'"
    from b obtain src where ld: "load_row Hk (ptr_add source (int k)) = Inr src"
      and st: "store_row Hk (ptr_add ?r (int k)) src = Inr Hk'"
      by (auto simp: bind_err_eq_Inr)
    from st obtain S' where sc: "store_cell (tabs Hk) (Ptr ?n (int k)) (Some src) = Inr S'"
      and Hk': "Hk' = Hk\<lparr>tabs := S'\<rparr>"
      by (auto simp: store_row_Inr)
    have fr: "tabs Hk' ! t = tabs H ! t" if "t < ?n" for t
    proof -
      have "S' ! t = tabs Hk ! t"
        using store_cell_frame(2) [OF sc, of t] that by simp
      then show ?thesis using I that Hk' by simp
    qed
    have live: "tabs Hk' ! ?n \<noteq> None"
      using store_cell_frame(3) [OF sc, of ?n] I Hk' by (cases "S' ! ?n") auto
    have new: "load_row Hk' (ptr_add ?r (int k)) = Inr src"
      using st by (rule store_row_same)
    have src: "load_row H (ptr_add source (int k)) = Inr src
                \<or> (\<forall>s j. source = Ptr s j \<longrightarrow> ?n \<le> s)"
    proof (cases source)
      case Null
      then show ?thesis by simp
    next
      case (Ptr s j)
      show ?thesis
      proof (cases "s < ?n")
        case True
        then have "load_cell (tabs Hk) (Ptr s (j + int k)) = load_cell (tabs H) (Ptr s (j + int k))"
          using I by simp
        then show ?thesis using ld Ptr by (simp add: load_row_def)
      next
        case False
        then show ?thesis using Ptr by simp
      qed
    qed
    have old: "\<exists>src. load_row Hk' (ptr_add ?r (int i)) = Inr src
            \<and> (load_row H (ptr_add source (int i)) = Inr src
                \<or> (\<forall>s j. source = Ptr s j \<longrightarrow> ?n \<le> s))" if "i < k" for i
    proof -
      have "ptr_add ?r (int i) \<noteq> ptr_add ?r (int k)" using that by simp
      then have "load_row Hk' (ptr_add ?r (int i)) = load_row Hk (ptr_add ?r (int i))"
        using store_row_other [OF st] by blast
      then show ?thesis using I that by simp
    qed
    have "\<forall>i<Suc k. \<exists>src. load_row Hk' (ptr_add ?r (int i)) = Inr src
            \<and> (load_row H (ptr_add source (int i)) = Inr src
                \<or> (\<forall>s j. source = Ptr s j \<longrightarrow> ?n \<le> s))"
      using new src old by (auto simp: less_Suc_eq)
    then show "?I (Suc k) Hk'"
      using I Hk' fr live store_cell_frame(1) [OF sc] by simp
  qed
  then show ?thesis using a by simp
qed

lemma from_ref_record:
  assumes "array2D_from H w h source flags = Inr (H', a)"
    and "flags AND ARRAY2D_BYREFERENCE \<noteq> 0"
  shows "a = \<lparr>width = w, height = h, rows = Ptr (length (tabs H)) 0, data = Null\<rparr>"
  using from_ref_Inr [OF assms] by (rule conjunct1)

lemma free_reference:
  assumes "array2D_from H w h source flags = Inr (H1, a)"
    and "flags AND ARRAY2D_BYREFERENCE \<noteq> 0"
  shows "free H1 a = Inr (H1\<lparr>tabs := (tabs H1)[length (tabs H) := None]\<rparr>,
                        a\<lparr>data := Null, rows := Null\<rparr>)"
proof -
  note r = from_ref_Inr [OF assms]
  have a: "data a = Null" "rows a = Ptr (length (tabs H)) 0"
    using r by simp_all
  have "delete_block (tabs H1) (Ptr (length (tabs H)) 0) =
      Inr ((tabs H1)[length (tabs H) := None])"
    using r by simp
  then show ?thesis
    by (simp add: free_def delete_elems_def delete_rows_def a)
qed

lemma grown_load_row:
  assumes "grown H H' n" and "load_row H p = Inr q"
  shows "load_row H' p = Inr q"
proof -
  from assms(2) obtain b i where p: "p = Ptr b i" "b < length (tabs H)"
    by (auto simp: load_row_Inr load_cell_Inr)
  then have "load_cell (tabs H') p = load_cell (tabs H) p"
    using assms(1) by (simp add: grown_def)
  then show ?thesis using assms(2) by (simp add: load_row_def)
qed

lemma grown_load_elem:
  assumes "grown H H' n" and "load_elem H p = Inr v"
  shows "load_elem H' p = Inr v \<and> (\<exists>b i. p = Ptr b i \<and> b < length (elems H))"
proof -
  from assms(2) obtain b i where p: "p = Ptr b i" "b < length (elems H)"
    by (auto simp: load_elem_def load_cell_Inr)
  then have "load_cell (elems H') p = load_cell (elems H) p"
    using assms(1) by (simp add: grown_def)
  then show ?thesis using assms(2) p by (simp add: load_elem_def)
qed

lemma ext_get_Inr:
  "ext_get H source y x = Inr v \<longleftrightarrow>
     (\<exists>row. load_row H (ptr_add source (int y)) = Inr row \<and> load_elem H (ptr_add row (int x)) = Inr v)"
  by (simp add: ext_get_def bind_err_eq_Inr)

lemma valid_sourceD:
  assumes "valid_source H source w h" and "y < h" and "x < w"
  shows "\<exists>row v. load_row H (ptr_add source (int y)) = Inr row
           \<and> load_elem H (ptr_add row (int x)) = Inr v \<and> ext_get H source y x = Inr v"
proof -
  have "\<not> isl (ext_get H source y x)"
    using assms by (simp add: valid_source_def)
  then obtain v where "ext_get H source y x = Inr v"
    by (cases "ext_get H source y x") auto
  then show ?thesis by (auto simp: ext_get_Inr)
qed

lemma grown_store_elem:
  assumes "grown H Hj n" and "store_elem Hj (Ptr (length (elems H)) k) v = Inr Hj'"
  shows "grown H Hj' n \<and> tabs Hj' = tabs Hj"
proof -
  from assms(2) obtain S' where sc: "store_cell (elems Hj) (Ptr (length (elems H)) k) v = Inr S'"
    and Hj': "Hj' = Hj\<lparr>elems := S'\<rparr>"
    by (auto simp: store_elem_Inr)
  note f = store_cell_frame [OF sc]
  have "S' ! b = elems H ! b" if "b < length (elems H)" for b
  proof -
    have "S' ! b = elems Hj ! b" using f(2) [of b] that by simp
    then show ?thesis using assms(1) that by (simp add: grown_def)
  qed
  then show ?thesis
    using assms(1) Hj' f(1) f(3) [of "length (elems H)"] by (simp add: grown_def)
qed

lemma grown_store_row:
  assumes "grown H Hj n" and "store_row Hj (Ptr (length (tabs H)) k) q = Inr Hj'"
  shows "grown H Hj' n \<and> elems Hj' = elems Hj"
proof -
  from assms(2) obtain S' where sc: "store_cell (tabs Hj) (Ptr (length (tabs H)) k) (Some q) = Inr S'"
    and Hj': "Hj' = Hj\<lparr>tabs := S'\<rparr>"
    by (auto simp: store_row_Inr)
  note f = store_cell_frame [OF sc]
  have "S' ! t = tabs H ! t" if "t < length (tabs H)" for t
  proof -
    have "S' ! t = tabs Hj ! t" using f(2) [of t] that by simp
    then show ?thesis using assms(1) that by (simp add: grown_def)
  qed
  then show ?thesis
    using assms(1) Hj' f(1) by (simp add: grown_def)
qed

text \<open>The inner loop of creator type 2: row \<open>i\<close> of the source is copied to \<open>k, k + 1, ...\<close>\<close>

lemma copy_row_Inr:
  assumes c: "copy_row Hs a source i = Inr Hs'"
    and g: "grown H Hs n"
    and a: "rows a = Ptr (length (tabs H)) 0"
    and r: "load_row Hs (Ptr (length (tabs H)) (int i)) = Inr (Ptr (length (elems H)) k)"
    and v: "\<forall>x<width a. \<exists>v. ext_get H source i x = Inr v"
  shows "grown H Hs' n \<and> tabs Hs' = tabs Hs
     \<and> (\<forall>x<width a. load_elem Hs' (Ptr (length (elems H)) (k + int x)) = ext_get H source i x)
     \<and> (\<forall>q. (\<forall>x<width a. q \<noteq> Ptr (length (elems H)) (k + int x))
            \<longrightarrow> load_elem Hs' q = load_elem Hs q)"
proof -
  let ?ne = "length (elems H)" and ?nt = "length (tabs H)"
  let ?body = "\<lambda>j Hj.
          bind_err (load_row Hj (ptr_add source (int i))) (\<lambda>src.
          bind_err (load_elem Hj (ptr_add src (int j))) (\<lambda>v.
          bind_err (load_row Hj (ptr_add (rows a) (int i))) (\<lambda>dst.
          store_elem Hj (ptr_add dst (int j)) v)))"
  let ?J = "\<lambda>j Hj. grown H Hj n \<and> tabs Hj = tabs Hs
     \<and> (\<forall>x<j. load_elem Hj (Ptr ?ne (k + int x)) = ext_get H source i x)
     \<and> (\<forall>q. (\<forall>x<j. q \<noteq> Ptr ?ne (k + int x)) \<longrightarrow> load_elem Hj q = load_elem Hs q)"
  have loop: "for_loop 0 (width a) ?body Hs = Inr Hs'"
    using c by (simp add: copy_row_def)
  show ?thesis
  proof (rule for_loop_rule [OF loop, where I = ?J])
    show "?J 0 Hs" using g by simp
    show "0 \<le> width a" by simp
  next
    fix j Hj Hj'
    assume j: "j < width a" and J: "?J j Hj" and b: "?body j Hj = Inr Hj'"
    from b obtain src val dst where
      1: "load_row Hj (ptr_add source (int i)) = Inr src" and
      2: "load_elem Hj (ptr_add src (int j)) = Inr val" and
      3: "load_row Hj (ptr_add (rows a) (int i)) = Inr dst" and
      4: "store_elem Hj (ptr_add dst (int j)) val = Inr Hj'"
      by (auto simp: bind_err_eq_Inr)
    from v j obtain v0 where v0: "ext_get H source i j = Inr v0" by blast
    then obtain src0 where s0: "load_row H (ptr_add source (int i)) = Inr src0"
      and e0: "load_elem H (ptr_add src0 (int j)) = Inr v0"
      by (auto simp: ext_get_Inr)
    have gj: "grown H Hj n" using J by simp
    have "src = src0" using grown_load_row [OF gj s0] 1 by simp
    then have val: "val = v0" using grown_load_elem [OF gj e0] 2 by simp
    have "load_row Hj (Ptr ?nt (int i)) = load_row Hs (Ptr ?nt (int i))"
      using J by (simp add: load_row_def)
    then have dst: "dst = Ptr ?ne k" using 3 a r by simp
    have st: "store_elem Hj (Ptr ?ne (k + int j)) val = Inr Hj'"
      using 4 dst by simp
    note gs = grown_store_elem [OF gj st]
    have new: "load_elem Hj' (Ptr ?ne (k + int j)) = ext_get H source i j"
      using store_elem_same [OF st] val v0 by simp
    have old: "load_elem Hj' (Ptr ?ne (k + int x)) = ext_get H source i x" if "x < j" for x
    proof -
      have "Ptr ?ne (k + int x) \<noteq> Ptr ?ne (k + int j)" using that by simp
      then show ?thesis using store_elem_other [OF st] J that by simp
    qed
    have cells: "load_elem Hj' q = load_elem Hs q"
      if "\<forall>x<Suc j. q \<noteq> Ptr ?ne (k + int x)" for q
    proof -
      have "load_elem Hj' q = load_elem Hj q"
        using store_elem_other [OF st, of q] that by simp
      then show ?thesis using J that by simp
    qed
    have "\<forall>x<Suc j. load_elem Hj' (Ptr ?ne (k + int x)) = ext_get H source i x"
      using new old by (auto simp: less_Suc_eq)
    then show "?J (Suc j) Hj'"
      using gs J cells by simp
  qed
qed

text \<open>Creator type 2 without \<^verbatim>\<open>ARRAY2D_BYREFERENCE\<close>.\<close>

lemma from_copy_Inr:
  assumes c: "array2D_from H w h source flags = Inr (H', a)"
    and f: "flags AND ARRAY2D_BYREFERENCE = 0"
    and v: "valid_source H source w h"
    and wh: "w * h < SIZE_MOD"
  shows "a = \<lparr>width = w, height = h, rows = Ptr (length (tabs H)) 0,
               data = Ptr (length (elems H)) 0\<rparr>
     \<and> grown H H' (w * h)
     \<and> (\<forall>y<h. load_row H' (Ptr (length (tabs H)) (int y)) =
            Inr (Ptr (length (elems H)) (int (w * y))))
     \<and> (\<forall>y<h. \<forall>x<w. load_elem H' (Ptr (length (elems H)) (int (w * y) + int x)) =
            ext_get H source y x)"
proof -
  let ?ne = "length (elems H)" and ?nt = "length (tabs H)"
  let ?a = "\<lparr>width = w, height = h, rows = Ptr ?nt 0, data = Ptr ?ne 0\<rparr>"
  let ?H2 = "H\<lparr>elems := elems H @ [Some (replicate (size_mul h w) None)],
                tabs := tabs H @ [Some (replicate h None)]\<rparr>"
  let ?body = "\<lambda>i Hi.
       bind_err (store_row Hi (ptr_add (rows ?a) (int i))
                   (ptr_add (data ?a) (int (size_mul i (width ?a)))))
         (\<lambda>Hi1. copy_row Hi1 ?a source i)"
  let ?I = "\<lambda>i Hi. grown H Hi (w * h)
     \<and> (\<forall>y<i. load_row Hi (Ptr ?nt (int y)) = Inr (Ptr ?ne (int (w * y))))
     \<and> (\<forall>y<i. \<forall>x<w. load_elem Hi (Ptr ?ne (int (w * y) + int x)) = ext_get H source y x)"
  have hw: "size_mul h w = w * h" using wh by (simp add: size_mul_def mult.commute)
  from c f have a: "a = ?a" and loop: "for_loop 0 h ?body ?H2 = Inr H'"
    by (auto simp: array2D_from_def bind_err_eq_Inr new_elems_Inr new_rows_Inr Let_def)
  have "?I h H'"
  proof (rule for_loop_rule [OF loop, where I = ?I])
    show "?I 0 ?H2" by (simp add: grown_def nth_append hw)
    show "0 \<le> h" by simp
  next
    fix i Hi Hi'
    assume i: "i < h" and I: "?I i Hi" and b: "?body i Hi = Inr Hi'"
    have "i \<le> h" using i by simp
    then have "w * i \<le> w * h" by (rule mult_le_mono2)
    then have "w * i < SIZE_MOD" using wh by (rule le_less_trans)
    then have iw: "size_mul i w = w * i" by (simp add: size_mul_def mult.commute)
    from b obtain Hi1 where
      st: "store_row Hi (Ptr ?nt (int i)) (Ptr ?ne (int (w * i))) = Inr Hi1"
      and cp: "copy_row Hi1 ?a source i = Inr Hi'"
      by (auto simp: bind_err_eq_Inr iw)
    have gi: "grown H Hi (w * h)" using I by simp
    note g1 = grown_store_row [OF gi st]
    have row1: "load_row Hi1 (Ptr ?nt (int i)) = Inr (Ptr ?ne (int (w * i)))"
      using st by (rule store_row_same)
    have val: "\<forall>x<width ?a. \<exists>v. ext_get H source i x = Inr v"
      using valid_sourceD [OF v i] by auto
    have "rows ?a = Ptr (length (tabs H)) 0" by simp
    note cr = copy_row_Inr [OF cp conjunct1 [OF g1] this row1 val]
    have rows: "load_row Hi' (Ptr ?nt (int y)) = Inr (Ptr ?ne (int (w * y)))"
      if "y < Suc i" for y
    proof -
      have eq: "load_row Hi' (Ptr ?nt (int y)) = load_row Hi1 (Ptr ?nt (int y))"
        using cr by (simp add: load_row_def)
      show ?thesis
      proof (cases "y = i")
        case True
        then show ?thesis using eq row1 by simp
      next
        case False
        then have "y < i" using that by simp
        moreover have "Ptr ?nt (int y) \<noteq> Ptr ?nt (int i)" using False by simp
        ultimately show ?thesis using eq store_row_other [OF st] I by simp
      qed
    qed
    have cells: "load_elem Hi' (Ptr ?ne (int (w * y) + int x)) = ext_get H source y x"
      if "y < Suc i" "x < w" for y x
    proof (cases "y = i")
      case True
      then show ?thesis using cr that by simp
    next
      case False
      then have y: "y < i" using that by simp
      have "Ptr ?ne (int (w * y) + int x) \<noteq> Ptr ?ne (int (w * i) + int x')" if "x' < w" for x'
      proof -
        have "w * y + x \<noteq> w * i + x'"
          using cell_index_inj [OF \<open>x < w\<close> that, of y i] False by blast
        then have "int (w * y + x) \<noteq> int (w * i + x')"
          by (simp only: of_nat_eq_iff not_False_eq_True)
        then show ?thesis by (simp only: of_nat_add ptr.inject) simp
      qed
      then have "load_elem Hi' (Ptr ?ne (int (w * y) + int x)) =
          load_elem Hi1 (Ptr ?ne (int (w * y) + int x))"
        using cr by simp
      also have "\<dots> = load_elem Hi (Ptr ?ne (int (w * y) + int x))"
        using g1 by (simp add: load_elem_def)
      finally show ?thesis using I y that by simp
    qed
    show "?I (Suc i) Hi'" using cr rows cells by simp
  qed
  then show ?thesis using a by simp
qed








section \<open>What the constructors leave and the member functions keep\<close>

lemma releasable_shape:
  assumes "releasable S p" and "length S' = length S"
    and "\<And>t. map_option length (S' ! t) = map_option length (S ! t)"
  shows "releasable S' p"
proof (cases p)
  case Null
  then show ?thesis by (simp add: releasable_def)
next
  case (Ptr b i)
  then have "i = 0" "b < length S" "S ! b \<noteq> None"
    using assms(1) by (simp_all add: releasable_def)
  moreover from this have "S' ! b \<noteq> None"
    using assms(3) [of b] by (cases "S' ! b") auto
  ultimately show ?thesis using Ptr assms(2) by (simp add: releasable_def)
qed

lemma releasable_append: "releasable S p \<Longrightarrow> releasable (S @ [x]) p"
  by (cases p) (auto simp: releasable_def nth_append)

lemma releasable_new: "releasable (S @ [Some cs]) (Ptr (length S) 0)"
  by (simp add: releasable_def)

lemma same_shape_refl: "same_shape H H"
  by (simp add: same_shape_def)

lemma same_shape_trans: "same_shape H H1 \<Longrightarrow> same_shape H1 H2 \<Longrightarrow> same_shape H H2"
  by (simp add: same_shape_def)

lemma same_shape_store_elem: "store_elem H p v = Inr H' \<Longrightarrow> same_shape H H'"
  using store_elem_shape [of H p v H'] by (simp add: same_shape_def)

lemma same_shape_store_row:
  assumes "store_row H p q = Inr H'"
  shows "same_shape H H'"
proof -
  from assms obtain S' where sc: "store_cell (tabs H) p (Some q) = Inr S'" and H': "H' = H\<lparr>tabs := S'\<rparr>"
    by (auto simp: store_row_Inr)
  show ?thesis using store_cell_frame(1,3) [OF sc] H' by (simp add: same_shape_def)
qed

lemma same_shape_loop:
  assumes "for_loop i n body s = Inr s'" and "i \<le> n"
    and "\<And>k t t'. body k t = Inr t' \<Longrightarrow> same_shape t t'"
  shows "same_shape s s'"
proof (rule for_loop_rule [OF assms(1), where I = "\<lambda>k t. same_shape s t"])
  show "same_shape s s" by (rule same_shape_refl)
  show "i \<le> n" by fact
next
  fix k t t'
  assume "same_shape s t" and "body k t = Inr t'"
  then show "same_shape s t'" using assms(3) same_shape_trans by blast
qed


lemma same_shape_memset:
  fixes H :: "('a::zero) heap"
  assumes "memset_zero H p n = Inr H'"
  shows "same_shape H H'"
  using memset_zero_Inr [OF assms] by (simp add: same_shape_def)

lemma same_shape_fill:
  assumes "fill H a v multiThread sched = Inr H'"
  shows "same_shape H H'"
proof -
  from assms have "fill_par H a v
      (if multiThread then sched else [0..<size_mul (width a) (height a)]) = Inr H'"
    by (simp only: fill_as_par)
  from fill_par_Inr [OF this] show ?thesis by (simp add: same_shape_def)
qed

lemma same_shape_put_at:
  assumes "put_at H a y x v = Inr H'"
  shows "same_shape H H'"
proof -
  from assms obtain row where "store_elem H (ptr_add row (int x)) (Some v) = Inr H'"
    by (auto simp: put_at_def bind_err_eq_Inr)
  then show ?thesis by (rule same_shape_store_elem)
qed

lemma rows_fit_tabs: "tabs H' = tabs H \<Longrightarrow> rows_fit H' a = rows_fit H a"
  by (cases "rows a") (simp_all add: rows_fit_def)

lemma rows_fit_same_shape:
  assumes "rows_fit H a" and "same_shape H H'"
  shows "rows_fit H' a"
proof (cases "rows a")
  case Null
  then show ?thesis by (simp add: rows_fit_def)
next
  case (Ptr t i)
  have "map_option length (tabs H' ! t) = map_option length (tabs H ! t)"
    using assms(2) by (simp add: same_shape_def)
  then show ?thesis
    using assms(1) Ptr by (cases "tabs H ! t"; cases "tabs H' ! t") (auto simp: rows_fit_def)
qed

lemma rows_fit_append:
  assumes "rows_fit H a" and "releasable (tabs H) (rows a)"
    and "tabs H' = tabs H @ [x]"
  shows "rows_fit H' a"
proof (cases "rows a")
  case Null
  then show ?thesis by (simp add: rows_fit_def)
next
  case (Ptr t i)
  then have "t < length (tabs H)" using assms(2) by (simp add: releasable_def)
  then show ?thesis using assms(1,3) Ptr by (simp add: rows_fit_def nth_append)
qed

lemma tidyI:
  "releasable (elems H) (data a) \<Longrightarrow> releasable (tabs H) (rows a) \<Longrightarrow> rows_fit H a \<Longrightarrow> tidy H a"
  by (simp add: tidy_def)

lemma tidy_null: "data a = Null \<Longrightarrow> rows a = Null \<Longrightarrow> tidy H a"
  by (simp add: tidy_def releasable_def rows_fit_def)

lemma tidy_same_shape:
  assumes "tidy H a" and "same_shape H H'"
  shows "tidy H' a"
proof -
  have t: "releasable (elems H) (data a)" "releasable (tabs H) (rows a)" "rows_fit H a"
    using assms(1) by (simp_all add: tidy_def)
  have s: "length (elems H') = length (elems H)" "length (tabs H') = length (tabs H)"
    "\<And>t. map_option length (elems H' ! t) = map_option length (elems H ! t)"
    "\<And>t. map_option length (tabs H' ! t) = map_option length (tabs H ! t)"
    using assms(2) by (simp_all add: same_shape_def)
  have "releasable (elems H') (data a)"
    using t(1) s(1) s(3) by (rule releasable_shape)
  moreover have "releasable (tabs H') (rows a)"
    using t(2) s(2) s(4) by (rule releasable_shape)
  moreover have "rows_fit H' a"
    using t(3) assms(2) by (rule rows_fit_same_shape)
  ultimately show ?thesis by (simp add: tidy_def)
qed

lemma tidy_made:
  fixes H :: "'a heap"
  assumes "d = Null \<or> d = Ptr (length (elems H)) 0"
  shows "tidy
     (H\<lparr>elems := (if d = Null then elems H else elems H @ [Some cs]),
         tabs := tabs H @ [Some (replicate h c)]\<rparr>)
     \<lparr>width = w, height = h, rows = Ptr (length (tabs H)) 0, data = d\<rparr>"
  using assms by (auto simp: tidy_def releasable_def rows_fit_def)

lemma sized_tidy:
  fixes H :: "('a::zero) heap"
  assumes "array2D_sized H w h flags = Inr (H', a)"
  shows "tidy H' a"
proof -
  let ?a = "\<lparr>width = w, height = h, rows = Ptr (length (tabs H)) 0, data = Ptr (length (elems H)) 0\<rparr>"
  let ?H2 = "H\<lparr>elems := elems H @ [Some (replicate (size_mul h w) None)],
                tabs := tabs H @ [Some (replicate h None)]\<rparr>"
  from assms obtain H3 where a: "a = ?a"
    and loop: "for_loop 0 h (\<lambda>i Hi. store_row Hi (ptr_add (Ptr (length (tabs H)) 0) (int i))
                  (ptr_add (Ptr (length (elems H)) 0) (int (size_mul i w)))) ?H2 = Inr H3"
    and fin: "if flags AND ARRAY2D_CLEAR_DATA \<noteq> 0
              then memset_zero H3 (Ptr (length (elems H)) 0) (size_mul w h) = Inr H' else H' = H3"
    by (auto simp: array2D_sized_def bind_err_eq_Inr new_elems_Inr new_rows_Inr Let_def
        split: if_splits)
  have 2: "tidy ?H2 ?a"
    using tidy_made [of "Ptr (length (elems H)) 0" H] by simp
  have "same_shape ?H2 H3"
    using loop by (rule same_shape_loop) (simp_all add: same_shape_store_row)
  moreover have "same_shape H3 H'"
    using fin same_shape_memset [of H3] by (auto simp: same_shape_refl split: if_splits)
  ultimately have "same_shape ?H2 H'" by (rule same_shape_trans)
  with 2 show ?thesis unfolding a by (rule tidy_same_shape)
qed


lemma ar_realloc_rows_releasable:
  assumes "ar_realloc_rows H a h = Inr (H1, a1)" and "releasable (tabs H) (rows a)"
  shows "releasable (tabs H1) (rows a1)"
proof (cases "rows a \<noteq> Null \<and> (h > height a \<or> size_mul 4 h < height a)")
  case True
  then obtain Hd where d: "delete_rows H (rows a) = Inr Hd"
    and n: "new_rows Hd h = Inr (rows a1, H1)"
    using assms(1)
    by (auto simp: ar_realloc_rows_def bind_err_eq_Inr new_rows_Inr)
  show ?thesis using n by (simp add: new_rows_Inr releasable_new)
next
  case False
  show ?thesis
  proof (cases "rows a = Null")
    case True
    then have "new_rows H h = Inr (rows a1, H1)"
      using assms(1) by (auto simp: ar_realloc_rows_def bind_err_eq_Inr new_rows_Inr)
    then show ?thesis by (simp add: new_rows_Inr releasable_new)
  next
    case nn: False
    then have "H1 = H" "a1 = a"
      using assms(1) False by (auto simp: ar_realloc_rows_def)
    then show ?thesis using assms(2) by simp
  qed
qed

lemma ar_realloc_data_releasable:
  assumes "ar_realloc_data H a w h offset = Inr (H2, a2)" and "releasable (elems H) (data a)"
  shows "releasable (elems H2) (data a2)"
proof (cases "data a = Null")
  case True
  from ar_realloc_data_null [OF assms(1) True] show ?thesis
    by (simp add: releasable_new)
next
  case False
  show ?thesis
  proof (cases "keeps_data a w h")
    case True
    from ar_realloc_data_kept [OF assms(1) False True] show ?thesis
      using assms(2) by simp
  next
    case nk: False
    from ar_realloc_data_fresh [OF assms(1) False nk] obtain b where
      "data a2 = Ptr (length (elems H)) 0"
      "elems H2 = (elems H)[b := None] @ [Some (replicate (size_plus_int (size_mul h w) offset) None)]"
      by blast
    then show ?thesis
      using releasable_new [of "(elems H)[b := None]"] by simp
  qed
qed

lemma ar_realloc_rows_fit:
  assumes "ar_realloc_rows H a h = Inr (H1, a1)"
    and "releasable (tabs H) (rows a)" and "rows_fit H a"
  shows "\<exists>t rs. rows a1 = Ptr t 0 \<and> t < length (tabs H1) \<and> tabs H1 ! t = Some rs \<and> h \<le> length rs"
proof (cases "rows a \<noteq> Null \<and> (h > height a \<or> size_mul 4 h < height a)")
  case True
  then obtain Hd where "new_rows Hd h = Inr (rows a1, H1)"
    using assms(1) by (auto simp: ar_realloc_rows_def bind_err_eq_Inr new_rows_Inr)
  then show ?thesis by (simp add: new_rows_Inr)
next
  case False
  show ?thesis
  proof (cases "rows a = Null")
    case True
    then have "new_rows H h = Inr (rows a1, H1)"
      using assms(1) by (auto simp: ar_realloc_rows_def bind_err_eq_Inr new_rows_Inr)
    then show ?thesis by (simp add: new_rows_Inr)
  next
    case nn: False
    then have eq: "H1 = H" "a1 = a"
      using assms(1) False by (auto simp: ar_realloc_rows_def)
    from nn obtain t i where p: "rows a = Ptr t i" by (cases "rows a") auto
    then have r: "i = 0" "t < length (tabs H)" "tabs H ! t \<noteq> None"
      using assms(2) by (simp_all add: releasable_def)
    then obtain rs where rs: "tabs H ! t = Some rs" by auto
    then have "height a \<le> length rs" using assms(3) p by (simp add: rows_fit_def)
    moreover have "h \<le> height a" using False nn by simp
    ultimately show ?thesis using eq p r rs by simp
  qed
qed

lemma resize_tidy:
  fixes H :: "('a::zero) heap"
  assumes "resize H a w h flags offset = Inr (H', a')" and "tidy H a"
  shows "tidy H' a'"
proof -
  from resize_Inr [OF assms(1)] obtain H3 where
    r: "ar_realloc H a w h offset = Inr (H3, a')"
    and z: "tabs H' = tabs H3" "length (elems H') = length (elems H3)"
      "\<forall>t. map_option length (elems H' ! t) = map_option length (elems H3 ! t)"
    by blast
  from r obtain H1 a1 H2 where
    1: "ar_realloc_rows H a h = Inr (H1, a1)" and
    2: "ar_realloc_data H1 a1 w h offset = Inr (H2, a')" and
    3: "set_rows H2 a' offset = Inr H3"
    by (auto simp: ar_realloc_def bind_err_eq_Inr)
  note f1 = ar_realloc_rows_Inr [OF 1] and f2 = ar_realloc_data_Inr [OF 2]
    and f3 = set_rows_Inr [OF 3]
  have t: "releasable (elems H) (data a)" "releasable (tabs H) (rows a)" "rows_fit H a"
    using assms(2) by (simp_all add: tidy_def)
  from ar_realloc_rows_fit [OF 1 t(2,3)] obtain tb rs where
    r1: "rows a1 = Ptr tb 0" "tb < length (tabs H1)" "tabs H1 ! tb = Some rs" "h \<le> length rs"
    by blast
  have t2: "releasable (tabs H2) (rows a')" "rows_fit H2 a'"
    using r1 f2 by (simp_all add: releasable_def rows_fit_def)
  have "releasable (elems H1) (data a1)" using t(1) f1 by simp
  with 2 have e2: "releasable (elems H2) (data a')" by (rule ar_realloc_data_releasable)
  have "tidy H2 a'" using t2 e2 by (simp add: tidy_def)
  moreover have "same_shape H2 H3" using f3 by (simp add: same_shape_def)
  ultimately have "tidy H3 a'" by (rule tidy_same_shape)
  moreover have "same_shape H3 H'" using z by (simp add: same_shape_def)
  ultimately show ?thesis by (rule tidy_same_shape)
qed

lemma free_Inr:
  assumes "free H a = Inr (H', a')"
  shows "a' = a\<lparr>data := Null, rows := Null\<rparr>"
  using assms by (auto simp: free_def bind_err_eq_Inr Let_def)

lemma ar_realloc_rows_total:
  assumes "releasable (tabs H) (rows a)" and "h \<le> limit H"
  shows "\<exists>H1 a1. ar_realloc_rows H a h = Inr (H1, a1)"
proof (cases "rows a \<noteq> Null \<and> (h > height a \<or> size_mul 4 h < height a)")
  case True
  from delete_block_releasable [OF assms(1)] obtain S' where
    "delete_block (tabs H) (rows a) = Inr S'" by blast
  then show ?thesis
    using True assms(2) by (simp add: ar_realloc_rows_def delete_rows_def new_rows_def new_block_def)
next
  case False
  then show ?thesis
    using assms(2) by (auto simp: ar_realloc_rows_def new_rows_def new_block_def)
qed

lemma ar_realloc_data_total:
  assumes "releasable (elems H) (data a)" and "size_plus_int (size_mul h w) offset \<le> limit H"
  shows "\<exists>H2 a2. ar_realloc_data H a w h offset = Inr (H2, a2)"
proof (cases "data a \<noteq> Null \<and>
           (size_mul h w > size_mul (width a) (height a) \<or>
            size_mul h w < size_mul (width a) (height a) div 4)")
  case True
  from delete_block_releasable [OF assms(1)] obtain S' where
    "delete_block (elems H) (data a) = Inr S'" by blast
  then show ?thesis
    using True assms(2)
    by (simp add: ar_realloc_data_def delete_elems_def new_elems_def new_block_def Let_def)
next
  case False
  then show ?thesis
    using assms(2) by (auto simp: ar_realloc_data_def new_elems_def new_block_def Let_def)
qed

lemma set_rows_total:
  fixes H :: "'a heap"
  assumes "rows a = Ptr t 0" and "t < length (tabs H)" and "tabs H ! t = Some rs"
    and "height a \<le> length rs"
  shows "\<exists>H'. set_rows H a offset = Inr H'"
proof -
  let ?I = "\<lambda>(k::nat) (Hk::'a heap).
     t < length (tabs Hk) \<and> map_option length (tabs Hk ! t) = Some (length rs)"
  have "\<exists>H'. for_loop 0 (height a)
       (\<lambda>i Hi. store_row Hi (ptr_add (rows a) (int i))
                 (ptr_add (ptr_add (data a) offset) (int (size_mul (width a) i)))) H = Inr H'
       \<and> ?I (height a) H'"
  proof (rule for_loop_total [where I = ?I])
    show "?I 0 H" using assms by simp
    show "0 \<le> height a" by simp
  next
    fix k and Hk :: "'a heap"
    assume k: "k < height a" and I: "?I k Hk"
    then obtain rs' where rs': "tabs Hk ! t = Some rs'" "length rs' = length rs"
      by (cases "tabs Hk ! t") auto
    let ?q = "ptr_add (ptr_add (data a) offset) (int (size_mul (width a) k))"
    let ?Hk' = "Hk\<lparr>tabs := (tabs Hk)[t := Some (rs'[k := Some ?q])]\<rparr>"
    have "store_row Hk (ptr_add (rows a) (int k)) ?q = Inr ?Hk'"
      using assms(1,4) I rs' k by (simp add: store_row_def)
    moreover have "?I (Suc k) ?Hk'" using I rs' by simp
    ultimately show "\<exists>t'. store_row Hk (ptr_add (rows a) (int k)) ?q = Inr t' \<and> ?I (Suc k) t'"
      by blast
  qed
  then show ?thesis by (auto simp: set_rows_def)
qed

lemma resize_total:
  fixes H :: "('a::zero) heap"
  assumes "tidy H a"
    and "h \<le> limit H" and "size_plus_int (size_mul h w) offset \<le> limit H"
    and "flags AND ARRAY2D_CLEAR_DATA = 0"
  shows "\<exists>H' a'. resize H a w h flags offset = Inr (H', a')"
proof -
  have el: "releasable (elems H) (data a)" and rl: "releasable (tabs H) (rows a)"
    and rf: "rows_fit H a"
    using assms(1) by (simp_all add: tidy_def)
  from ar_realloc_rows_total [OF rl assms(2)] obtain H1 a1 where
    1: "ar_realloc_rows H a h = Inr (H1, a1)" by blast
  note f1 = ar_realloc_rows_Inr [OF 1]
  from ar_realloc_rows_fit [OF 1 rl rf] obtain t rs where
    r1: "rows a1 = Ptr t 0" "t < length (tabs H1)" "tabs H1 ! t = Some rs" "h \<le> length rs"
    by blast
  have "releasable (elems H1) (data a1)" using el f1 by simp
  moreover have "size_plus_int (size_mul h w) offset \<le> limit H1" using assms(3) f1 by simp
  ultimately obtain H2 a2 where 2: "ar_realloc_data H1 a1 w h offset = Inr (H2, a2)"
    using ar_realloc_data_total by blast
  note f2 = ar_realloc_data_Inr [OF 2]
  have "\<exists>H3. set_rows H2 a2 offset = Inr H3"
  proof (rule set_rows_total)
    show "rows a2 = Ptr t 0" using f2 r1 by simp
    show "t < length (tabs H2)" using f2 r1 by simp
    show "tabs H2 ! t = Some rs" using f2 r1 by simp
    show "height a2 \<le> length rs" using f2 r1 by simp
  qed
  then obtain H3 where 3: "set_rows H2 a2 offset = Inr H3" by blast
  have "ar_realloc H a w h offset = Inr (H3, a2)"
    by (simp add: ar_realloc_def 1 2 3)
  then show ?thesis using assms(4) by (simp add: resize_def)
qed

section \<open>The slots of multi\_array2D\<close>

lemma int_of_size_times:
  assumes "0 \<le> int k * offset" and "int k * offset < 2 ^ 31"
  shows "int_of_size (size_times_int k offset) = int k * offset"
proof -
  have "int k * offset < int SIZE_MOD"
    using assms(2) by (simp add: SIZE_MOD_def)
  then have "(int k * offset) mod int SIZE_MOD = int k * offset"
    using assms(1) by (intro mod_pos_pos_trivial)
  then have "int (size_times_int k offset) = int k * offset"
    using assms(1) by (simp add: size_times_int_def)
  moreover have "(int k * offset + 2 ^ 31) mod 2 ^ 32 = int k * offset + 2 ^ 31"
    using assms by (intro mod_pos_pos_trivial) simp_all
  ultimately show ?thesis by (simp add: int_of_size_def)
qed

lemma extended_refl: "extended K K"
  by (simp add: extended_def)

lemma extended_trans: "extended K K1 \<Longrightarrow> extended K1 K2 \<Longrightarrow> extended K K2"
  by (simp add: extended_def)

lemma extended_load_row:
  assumes "extended K K'" and "load_row K p = Inr q"
  shows "load_row K' p = Inr q"
proof -
  from assms(2) obtain b i where p: "p = Ptr b i" "b < length (tabs K)"
    by (auto simp: load_row_Inr load_cell_Inr)
  then have "load_cell (tabs K') p = load_cell (tabs K) p"
    using assms(1) by (simp add: extended_def)
  then show ?thesis using assms(2) by (simp add: load_row_def)
qed

lemma extended_load_elem:
  assumes "extended K K'" and "load_elem K p = Inr v"
  shows "load_elem K' p = Inr v"
proof -
  from assms(2) obtain b i where p: "p = Ptr b i" "b < length (elems K)"
    by (auto simp: load_elem_def load_cell_Inr)
  then have "load_cell (elems K') p = load_cell (elems K) p"
    using assms(1) by (simp add: extended_def)
  then show ?thesis using assms(2) by (simp add: load_elem_def)
qed

lemma resize_null_extended:
  fixes H :: "('a::zero) heap"
  assumes "resize H a w h flags offset = Inr (H', a')"
    and "rows a = Null" and "data a = Null"
  shows "extended H H'"
  using resize_null_Inr [OF assms] by (simp add: extended_def)

lemma multi_loop_run:
  fixes H :: "('a::zero) heap"
  assumes m: "multi_array2D H num w h flags offset = Inr (H', slots)"
  shows "length slots = num \<and> extended H H'
     \<and> length (elems H') = length (elems H) + num \<and> length (tabs H') = length (tabs H) + num
     \<and> (\<forall>i<num. slot_run H H' w h flags offset (slots ! i) i)"
proof -
  let ?ne = "length (elems H)" and ?nt = "length (tabs H)"
  let ?body = "\<lambda>i (Hi, lst).
          bind_err (resize Hi (lst ! i) w h flags (int_of_size (size_times_int (i + 1) offset)))
            (\<lambda>(H1, a1). Inr (H1, lst[i := a1]))"
  let ?I = "\<lambda>k (Hk, lst). length lst = num \<and> extended H Hk
     \<and> length (elems Hk) = ?ne + k \<and> length (tabs Hk) = ?nt + k
     \<and> (\<forall>i. k \<le> i \<and> i < num \<longrightarrow> lst ! i = array2D_empty)
     \<and> (\<forall>i<k. slot_run H Hk w h flags offset (lst ! i) i)"
  have loop: "for_loop 0 num ?body (H, replicate num array2D_empty) = Inr (H', slots)"
    using m by (simp add: multi_array2D_def)
  have "?I num (H', slots)"
  proof (rule for_loop_rule [OF loop, where I = ?I])
    show "?I 0 (H, replicate num array2D_empty)" by (simp add: extended_refl)
    show "0 \<le> num" by simp
  next
    fix k :: nat and t t' :: "'a heap \<times> array2D list"
    assume k: "k < num" and I: "?I k t" and b: "?body k t = Inr t'"
    obtain Hk lst where t: "t = (Hk, lst)" by (cases t)
    obtain Hk' lst' where t': "t' = (Hk', lst')" by (cases t')
    let ?off = "int_of_size (size_times_int (k + 1) offset)"
    have Ik: "length lst = num" "length (elems Hk) = ?ne + k" "length (tabs Hk) = ?nt + k"
      "lst ! k = array2D_empty" "extended H Hk"
      using I t k by simp_all
    have Iold: "slot_run H Hk w h flags offset (lst ! i) i" if "i < k" for i
      using I t that by simp
    have Irest: "lst ! i = array2D_empty" if "k \<le> i" "i < num" for i
      using I t that by simp
    have "bind_err (resize Hk array2D_empty w h flags ?off)
            (\<lambda>(H1, a1). Inr (H1, lst[k := a1])) = Inr (Hk', lst')"
      using b by (simp only: t t' prod.case Ik(4))
    then obtain x where x: "resize Hk array2D_empty w h flags ?off = Inr x"
      "(case x of (H1, a1) \<Rightarrow> Inr (H1, lst[k := a1])) = (Inr (Hk', lst') :: error + 'a heap \<times> array2D list)"
      by (auto simp only: bind_err_eq_Inr)
    obtain H1 a1 where x1: "x = (H1, a1)" by (cases x)
    have r: "resize Hk array2D_empty w h flags ?off = Inr (Hk', a1)"
      and l': "lst' = lst[k := a1]"
      using x x1 by simp_all
    have nul: "rows array2D_empty = Null" "data array2D_empty = Null"
      by (simp_all add: array2D_empty_def)
    note z = resize_null_Inr [OF r nul]
    have ex: "extended Hk Hk'" using r nul by (rule resize_null_extended)
    have new: "slot_run H Hk' w h flags offset a1 k"
      unfolding slot_run_def using Ik(2,3,5) r extended_refl [of Hk'] by blast
    have old: "slot_run H Hk' w h flags offset (lst ! i) i" if "i < k" for i
    proof -
      from Iold [OF that] obtain Hi Hi' :: "'a heap" where
        s: "extended H Hi" "length (elems Hi) = ?ne + i" "length (tabs Hi) = ?nt + i"
          "resize Hi array2D_empty w h flags (int_of_size (size_times_int (i + 1) offset)) =
            Inr (Hi', lst ! i)"
          "extended Hi' Hk"
        unfolding slot_run_def by blast
      have "extended Hi' Hk'" using s(5) ex by (rule extended_trans)
      then show ?thesis unfolding slot_run_def using s(1-4) by blast
    qed
    have all: "slot_run H Hk' w h flags offset (lst' ! i) i" if "i < Suc k" for i
    proof (cases "i = k")
      case True
      then show ?thesis using new l' Ik(1) k by simp
    next
      case False
      then have "i < k" using that by simp
      then show ?thesis using old l' False by simp
    qed
    have rest: "lst' ! i = array2D_empty" if "Suc k \<le> i" "i < num" for i
      using that Irest [of i] l' by simp
    have "length lst' = num" using l' Ik(1) by simp
    moreover have "length (elems Hk') = ?ne + Suc k" "length (tabs Hk') = ?nt + Suc k"
      using z Ik(2,3) by simp_all
    moreover have "extended H Hk'" using Ik(5) ex by (rule extended_trans)
    ultimately show "?I (Suc k) t'"
      using all rest by (simp add: t')
  qed
  then show ?thesis by simp
qed

text \<open>The constructor returns.\<close>

lemma memset_zero_total:
  fixes H :: "('a::zero) heap"
  assumes "b < length (elems H)" and "elems H ! b = Some cs"
    and "0 \<le> i0" and "nat i0 + n \<le> length cs"
  shows "\<exists>H'. memset_zero H (Ptr b i0) n = Inr H'"
proof -
  let ?I = "\<lambda>(k::nat) (Hk::'a heap).
     b < length (elems Hk) \<and> map_option length (elems Hk ! b) = Some (length cs)"
  have "\<exists>H'. for_loop 0 n (\<lambda>k Hk. store_elem Hk (ptr_add (Ptr b i0) (int k)) (Some 0)) H = Inr H'
       \<and> ?I n H'"
  proof (rule for_loop_total [where I = ?I])
    show "?I 0 H" using assms by simp
    show "0 \<le> n" by simp
  next
    fix k and Hk :: "'a heap"
    assume k: "k < n" and I: "?I k Hk"
    then obtain cs' where cs': "elems Hk ! b = Some cs'" "length cs' = length cs"
      by (cases "elems Hk ! b") auto
    define j where "j = nat i0 + k"
    have eq: "i0 + int k = int j" using assms(3) by (simp add: j_def)
    have lt: "j < length cs'" using k assms(4) cs' by (simp add: j_def)
    let ?Hk' = "Hk\<lparr>elems := (elems Hk)[b := Some (cs'[j := Some 0])]\<rparr>"
    have "store_elem Hk (Ptr b (int j)) (Some 0) = Inr ?Hk'"
      using I cs' lt by (simp add: store_elem_def)
    then have "store_elem Hk (ptr_add (Ptr b i0) (int k)) (Some 0) = Inr ?Hk'"
      by (simp only: ptr_add.simps eq)
    moreover have "?I (Suc k) ?Hk'" using I cs' by simp
    ultimately show "\<exists>t'. store_elem Hk (ptr_add (Ptr b i0) (int k)) (Some 0) = Inr t'
        \<and> ?I (Suc k) t'"
      by blast
  qed
  then show ?thesis by (auto simp: memset_zero_def)
qed

lemma resize_null_total:
  fixes H :: "('a::zero) heap"
  assumes n: "rows a = Null" "data a = Null"
    and o: "0 \<le> offset" and s: "int (w * h) + offset < int SIZE_MOD"
    and hl: "h \<le> limit H" and wl: "w * h + nat offset \<le> limit H"
  shows "\<exists>H' a'. resize H a w h flags offset = Inr (H', a')"
proof -
  have wh: "w * h < SIZE_MOD" using o s by linarith
  then have hw: "size_mul h w = w * h" "size_mul w h = w * h"
    by (simp_all add: size_mul_def mult.commute)
  have "(int (w * h) + offset) mod int SIZE_MOD = int (w * h) + offset"
    using o s by (intro mod_pos_pos_trivial) simp_all
  moreover have "int (w * h) + offset = int (w * h + nat offset)" using o by simp
  ultimately have "size_plus_int (size_mul h w) offset = nat (int (w * h + nat offset))"
    by (simp only: size_plus_int_def hw)
  then have sz: "size_plus_int (size_mul h w) offset = w * h + nat offset"
    by (simp only: nat_int)
  have t: "tidy H a" using n(2,1) by (rule tidy_null)
  have "size_plus_int (size_mul h w) offset \<le> limit H" using wl sz by simp
  from resize_total [OF t hl this, of 0] obtain H1 a1 where
    r0: "resize H a w h 0 offset = Inr (H1, a1)" by auto
  then have ar: "ar_realloc H a w h offset = Inr (H1, a1)"
    using resize_Inr [OF r0] by auto
  show ?thesis
  proof (cases "flags AND ARRAY2D_CLEAR_DATA \<noteq> 0")
    case False
    then show ?thesis using ar by (simp add: resize_def)
  next
    case True
    note z = resize_null_Inr [OF r0 n]
    obtain cs where cs: "elems H1 ! length (elems H) = Some cs" "length cs = w * h + nat offset"
      using z sz by (cases "elems H1 ! length (elems H)") auto
    have "\<exists>H2. memset_zero H1 (Ptr (length (elems H)) offset) (w * h) = Inr H2"
    proof (rule memset_zero_total)
      show "length (elems H) < length (elems H1)" using z by simp
      show "elems H1 ! length (elems H) = Some cs" by fact
      show "0 \<le> offset" by fact
      show "nat offset + w * h \<le> length cs" using cs by simp
    qed
    then obtain H2 where "memset_zero H1 (Ptr (length (elems H)) offset) (w * h) = Inr H2"
      by blast
    then show ?thesis using ar True z by (simp add: resize_def hw)
  qed
qed

lemma multi_total:
  fixes H :: "('a::zero) heap"
  assumes o: "0 \<le> offset" and n: "int num * offset < 2 ^ 31"
    and s: "int (w * h) + int num * offset < int SIZE_MOD"
    and hl: "h \<le> limit H" and wl: "w * h + nat (int num * offset) \<le> limit H"
  shows "\<exists>H' slots. multi_array2D H num w h flags offset = Inr (H', slots)"
proof -
  let ?body = "\<lambda>i (Hi, lst).
          bind_err (resize Hi (lst ! i) w h flags (int_of_size (size_times_int (i + 1) offset)))
            (\<lambda>(H1, a1). Inr (H1, lst[i := a1]))"
  let ?I = "\<lambda>(k::nat) (Hk::'a heap, lst). length lst = num \<and> limit Hk = limit H
     \<and> (\<forall>i. k \<le> i \<and> i < num \<longrightarrow> lst ! i = array2D_empty)"
  have "\<exists>t'. for_loop 0 num ?body (H, replicate num array2D_empty) = Inr t' \<and> ?I num t'"
  proof (rule for_loop_total [where I = ?I])
    show "?I 0 (H, replicate num array2D_empty)" by simp
    show "0 \<le> num" by simp
  next
    fix k :: nat and t :: "'a heap \<times> array2D list"
    assume k: "k < num" and I: "?I k t"
    obtain Hk lst where t: "t = (Hk, lst)" by (cases t)
    have Ik: "length lst = num" "limit Hk = limit H" "lst ! k = array2D_empty"
      using I t k by simp_all
    have Irest: "lst ! i = array2D_empty" if "k \<le> i" "i < num" for i
      using I t that by simp
    have "int (k + 1) \<le> int num" using k by simp
    then have le: "int (k + 1) * offset \<le> int num * offset"
      using o by (rule mult_right_mono)
    have off0: "0 \<le> int (k + 1) * offset" using o by simp
    have lt: "int (k + 1) * offset < 2 ^ 31" using le n by (rule le_less_trans)
    have off: "int_of_size (size_times_int (k + 1) offset) = int (k + 1) * offset"
      using off0 lt by (rule int_of_size_times)
    have sz: "int (w * h) + int (k + 1) * offset < int SIZE_MOD" using le s by linarith
    have "nat (int (k + 1) * offset) \<le> nat (int num * offset)" using le by simp
    then have wl': "w * h + nat (int (k + 1) * offset) \<le> limit Hk" using wl Ik(2) by simp
    have hl': "h \<le> limit Hk" using hl Ik(2) by simp
    have nul: "rows array2D_empty = Null" "data array2D_empty = Null"
      by (simp_all add: array2D_empty_def)
    from resize_null_total [OF nul off0 sz hl' wl'] obtain Hk' a1 where
      r: "resize Hk array2D_empty w h flags (int (k + 1) * offset) = Inr (Hk', a1)" by blast
    have lim: "limit Hk' = limit H" using resize_rows [OF r] Ik(2) by simp
    have b: "?body k t = Inr (Hk', lst[k := a1])"
      by (simp only: t prod.case off Ik(3) r bind_err_Inr)
    have rest: "lst[k := a1] ! i = array2D_empty" if "Suc k \<le> i" "i < num" for i
      using that Irest [of i] by simp
    have "?I (Suc k) (Hk', lst[k := a1])" using Ik(1) lim rest by simp
    then show "\<exists>t'. ?body k t = Inr t' \<and> ?I (Suc k) t'" using b by blast
  qed
  then show ?thesis by (auto simp: multi_array2D_def)
qed

section \<open>Concrete runs\<close>

text \<open>Evaluation on numerals.\<close>

lemma replicate_numeral: "replicate (numeral k) x = x # replicate (pred_numeral k) x"
  by (simp add: numeral_eq_Suc)

lemma list_update_numeral: "(x # xs)[numeral k := y] = x # xs[pred_numeral k := y]"
  by (simp add: numeral_eq_Suc)

lemma less_2_cases_nat: "(x::nat) < 2 \<longleftrightarrow> x = 0 \<or> x = 1"
  by auto

lemmas eval_heap =
  new_elems_def new_rows_def new_block_def delete_elems_def delete_rows_def
  store_row_def store_elem_def load_row_def load_elem_def
  for_loop_step for_loop_done size_mul_def size_plus_int_def SIZE_MOD_def
  replicate_numeral list_update_numeral

lemmas eval_resize =
  resize_def ar_realloc_def ar_realloc_rows_def ar_realloc_data_def set_rows_def
  memset_zero_def ARRAY2D_CLEAR_DATA_def

lemmas eval_access =
  get_at_def put_at_def flat_at_def op_index_def op_flat_def ext_get_def ext_put_def
  load_row_def load_elem_def store_elem_def list_update_numeral

lemma sized_2x2: "array2D_sized heap0 2 2 0 = Inr (heap_2x2, array_2x2)"
  by (simp add: array2D_sized_def heap0_def heap_2x2_def array_2x2_def new_elems_def new_rows_def
      new_block_def size_mul_def SIZE_MOD_def for_loop_step for_loop_done store_row_def
      ARRAY2D_CLEAR_DATA_def replicate_numeral list_update_numeral)

lemma owning_2x2: "owning heap_2x2 array_2x2 0"
  using sized_owning [OF sized_2x2] by (simp add: SIZE_MOD_def)

lemma fill_2x2:
  "fill heap_2x2 array_2x2 7 False [] =
     Inr (heap_2x2\<lparr>elems := [Some [Some 7, Some 7, Some 7, Some 7]]\<rparr>)"
  by (simp add: fill_def fill_body_def heap_2x2_def array_2x2_def size_mul_def SIZE_MOD_def
      for_loop_step for_loop_done store_elem_def list_update_numeral)

lemma schedule_example: "is_schedule array_2x2 [3, 1, 0, 2]"
  by (auto simp: is_schedule_def array_2x2_def size_mul_def SIZE_MOD_def)

lemma fill_par_2x2:
  "fill heap_2x2 array_2x2 7 True [3, 1, 0, 2] =
     Inr (heap_2x2\<lparr>elems := [Some [Some 7, Some 7, Some 7, Some 7]]\<rparr>)"
  by (simp add: fill_def fill_body_def heap_2x2_def array_2x2_def store_elem_def
      list_update_numeral)







lemma resize_off_example:
  "resize heap0 array2D_empty 2 1 ARRAY2D_CLEAR_DATA 1 = Inr (heap_off, array_off)"
  by (simp add: eval_resize eval_heap heap0_def array2D_empty_def heap_off_def array_off_def)

lemma valid_src_example: "valid_source heap_src (Ptr 0 0) 2 1"
  by (auto simp: valid_source_def less_2_cases_nat ext_get_def load_row_def load_elem_def
      heap_src_def)

lemma from_ref_example: "array2D_from heap_src 2 1 (Ptr 0 0) 2 = Inr (heap_ref, array_ref)"
  by (simp add: array2D_from_def heap_src_def heap_ref_def array_ref_def new_rows_def
      new_block_def for_loop_step for_loop_done store_row_def load_row_def
      ARRAY2D_BYREFERENCE_def)

lemma free_ref_example:
  "free heap_ref array_ref =
     Inr (heap_ref\<lparr>tabs := [Some [Some (Ptr 0 0)], None]\<rparr>, array_ref\<lparr>data := Null, rows := Null\<rparr>)"
  by (simp add: free_def heap_ref_def array_ref_def delete_elems_def delete_rows_def)


lemma from_copy_example: "array2D_from heap_src 2 1 (Ptr 0 0) 0 = Inr (heap_copy, array_copy)"
  by (simp add: array2D_from_def copy_row_def eval_heap heap_src_def heap_copy_def
      array_copy_def ARRAY2D_BYREFERENCE_def)

lemma multi_example: "multi_array2D heap0 2 2 1 0 1 = Inr (heap_multi, slots_multi)"
  by (simp add: multi_array2D_def eval_resize eval_heap int_of_size_def size_times_int_def
      heap0_def array2D_empty_def heap_multi_def slots_multi_def)

lemma tidy_2x2: "tidy heap_2x2 array_2x2"
  using sized_2x2 by (rule sized_tidy)

lemma owning_off: "owning heap_off array_off 1"
  using resize_null_owning [OF resize_off_example]
  by (simp add: array2D_empty_def SIZE_MOD_def)

lemma fill_off:
  "fill heap_off array_off 7 False [] =
     Inr (heap_off\<lparr>elems := [Some [Some 7, Some 7, Some 0]]\<rparr>)"
  by (simp add: fill_def fill_body_def heap_off_def array_off_def size_mul_def SIZE_MOD_def
      for_loop_step for_loop_done store_elem_def list_update_numeral)

lemma multi_zero_example:
  "multi_array2D heap0 2 2 1 ARRAY2D_CLEAR_DATA 1 = Inr (heap_multi_zero, slots_multi)"
  by (simp add: multi_array2D_def eval_resize eval_heap int_of_size_def size_times_int_def
      heap0_def array2D_empty_def heap_multi_zero_def slots_multi_def)

section \<open>The claims\<close>

subsection \<open>C1: free\<close>

text \<open>
  C1, as the code has it. \<^verbatim>\<open>free\<close> releases the two arrays and sets both pointers to null; it
  does not assign \<^verbatim>\<open>width\<close> or \<^verbatim>\<open>height\<close>. It returns for every instance whose two pointers
  are each null or an array that is allocated, with a row table long enough for its height:
  the state every constructor leaves an instance in and every member function keeps it in,
  whatever else the program allocates, writes or releases of its own. And whenever \<^verbatim>\<open>free\<close>
  returns, in any state at all, both views are null afterwards, a second \<^verbatim>\<open>free\<close> returns and
  changes nothing, and \<^verbatim>\<open>getWidth\<close>, \<^verbatim>\<open>getHeight\<close> and the conversion to \<^verbatim>\<open>bool\<close> answer as
  they did before the call.
\<close>

theorem free_keeps_shape:
  "(tidy H a \<longrightarrow>
      (\<exists>H' a'. free H a = Inr (H', a') \<and> free H' a' = Inr (H', a')
           \<and> op_flat a' = Null \<and> op_rows a' = Null
           \<and> getWidth a' = getWidth a \<and> getHeight a' = getHeight a \<and> op_bool a' = op_bool a))
   \<and> (free H1 a1 = Inr (H2, a2) \<longrightarrow>
        free H2 a2 = Inr (H2, a2)
      \<and> op_flat a2 = Null \<and> op_rows a2 = Null
      \<and> getWidth a2 = getWidth a1 \<and> getHeight a2 = getHeight a1 \<and> op_bool a2 = op_bool a1)"
proof (intro conjI impI)
  assume "tidy H a"
  then have "releasable (elems H) (data a)" "releasable (tabs H) (rows a)"
    by (simp_all add: tidy_def)
  then obtain H' where "free H a = Inr (H', a\<lparr>data := Null, rows := Null\<rparr>)"
    using free_total by blast
  then show "\<exists>H' a'. free H a = Inr (H', a') \<and> free H' a' = Inr (H', a')
           \<and> op_flat a' = Null \<and> op_rows a' = Null
           \<and> getWidth a' = getWidth a \<and> getHeight a' = getHeight a \<and> op_bool a' = op_bool a"
    by (simp add: free_again op_flat_def op_rows_def getWidth_def getHeight_def op_bool_def)
next
  assume "free H1 a1 = Inr (H2, a2)"
  then have a2: "a2 = a1\<lparr>data := Null, rows := Null\<rparr>" by (rule free_Inr)
  show "free H2 a2 = Inr (H2, a2)" unfolding a2 by (rule free_again)
  show "op_flat a2 = Null" "op_rows a2 = Null" "getWidth a2 = getWidth a1"
    "getHeight a2 = getHeight a1" "op_bool a2 = op_bool a1"
    by (simp_all add: a2 op_flat_def op_rows_def getWidth_def getHeight_def op_bool_def)
qed

text \<open>
  C1 as stated fails: a 2-by-2 array still reports width 2, height 2 and \<^verbatim>\<open>true\<close> after \<^verbatim>\<open>free\<close>.
\<close>

theorem free_keeps_shape_counterexample:
  "array2D_sized heap0 2 2 0 = Inr (heap_2x2, array_2x2) \<and>
   free heap_2x2 array_2x2 =
     Inr (\<lparr>elems = [None], tabs = [None], limit = 64\<rparr>,
          \<lparr>width = 2, height = 2, rows = Null, data = Null\<rparr>) \<and>
   getWidth \<lparr>width = 2, height = 2, rows = Null, data = Null\<rparr> = 2 \<and>
   getHeight \<lparr>width = 2, height = 2, rows = Null, data = Null\<rparr> = 2 \<and>
   op_bool \<lparr>width = 2, height = 2, rows = Null, data = Null\<rparr>"
  by (simp add: sized_2x2 free_def heap_2x2_def array_2x2_def delete_elems_def delete_rows_def
      getWidth_def getHeight_def op_bool_def)

text \<open>
  C1 at the 2-by-2 array that creator type 1 makes: both calls of \<^verbatim>\<open>free\<close> return, and the
  shape is still 2 by 2.
\<close>

theorem free_keeps_shape_witness:
  "tidy heap_2x2 array_2x2
   \<and> (\<exists>H' a'. free heap_2x2 array_2x2 = Inr (H', a') \<and> free H' a' = Inr (H', a')
           \<and> op_flat a' = Null \<and> op_rows a' = Null
           \<and> getWidth a' = 2 \<and> getHeight a' = 2 \<and> op_bool a')
   \<and> free \<lparr>elems = [None], tabs = [None], limit = 64\<rparr>
        \<lparr>width = 2, height = 2, rows = Null, data = Null\<rparr> =
      Inr (\<lparr>elems = [None], tabs = [None], limit = 64\<rparr>,
           \<lparr>width = 2, height = 2, rows = Null, data = Null\<rparr>)"
  using free_keeps_shape [of heap_2x2 array_2x2 heap_2x2 array_2x2
      "\<lparr>elems = [None], tabs = [None], limit = 64\<rparr>"
      "\<lparr>width = 2, height = 2, rows = Null, data = Null\<rparr>"]
    tidy_2x2
  by (simp add: array_2x2_def heap_2x2_def getWidth_def getHeight_def op_bool_def free_def
      delete_elems_def delete_rows_def)

subsection \<open>C2: the reuse of data on resize\<close>




subsection \<open>C3: a referencing instance and resize\<close>




subsection \<open>C4: copy or reference at construction\<close>



subsection \<open>C5: the rows and the flat view\<close>

text \<open>
  C5, as the code has it. After a resize with offset \<open>k\<close> that returns, with any flags and
  from any state, row \<open>y\<close> is \<^verbatim>\<open>data + k + width * y\<close> (the product in \<^verbatim>\<open>size_t\<close>) for every
  \<open>y\<close> below the height: so \<^verbatim>\<open>array[y][x]\<close> is the cell of the flat view at linear offset
  \<open>k + width * y + x\<close>, which is the offset \<open>width * y + x\<close> when \<open>k\<close> is 0. The two creators
  set the rows with no offset, and for them \<^verbatim>\<open>array[y][x]\<close> is the flat view at \<open>y * width + x\<close>.
\<close>

theorem rows_follow_data:
  fixes H H1 :: "('a::zero) heap"
  shows "(resize H a w h flags offset = Inr (H', a') \<and> y < h \<longrightarrow>
       op_index H' a' y = Inr (ptr_add (ptr_add (op_flat a') offset) (int (size_mul w y)))
     \<and> get_at H' a' y x =
         load_elem H' (ptr_add (op_flat a') (offset + int (size_mul w y) + int x))
     \<and> (offset = 0 \<longrightarrow> get_at H' a' y x = flat_at H' a' (size_mul w y + x)))
   \<and> (array2D_sized H1 w1 h1 flags1 = Inr (H1', a1') \<and> y1 < h1 \<longrightarrow>
       op_index H1' a1' y1 = Inr (ptr_add (op_flat a1') (int (size_mul y1 w1)))
     \<and> get_at H1' a1' y1 x1 = flat_at H1' a1' (size_mul y1 w1 + x1))
   \<and> (array2D_from H2 w2 h2 source flags2 = Inr (H2', a2')
        \<and> flags2 AND ARRAY2D_BYREFERENCE = 0 \<and> valid_source H2 source w2 h2
        \<and> w2 * h2 < SIZE_MOD \<and> y2 < h2 \<longrightarrow>
       op_index H2' a2' y2 = Inr (ptr_add (op_flat a2') (int (y2 * w2)))
     \<and> get_at H2' a2' y2 x2 = flat_at H2' a2' (y2 * w2 + x2))"
proof (intro conjI impI)
  assume A: "resize H a w h flags offset = Inr (H', a') \<and> y < h"
  then have r: "resize H a w h flags offset = Inr (H', a')" and y: "y < h" by simp_all
  note rr = resize_rows [OF r]
  show oi: "op_index H' a' y = Inr (ptr_add (ptr_add (op_flat a') offset) (int (size_mul w y)))"
    using rr y by (simp add: op_index_def op_flat_def)
  then show g: "get_at H' a' y x =
      load_elem H' (ptr_add (op_flat a') (offset + int (size_mul w y) + int x))"
    by (simp add: get_at_def ptr_add_add)
  show "get_at H' a' y x = flat_at H' a' (size_mul w y + x)" if "offset = 0"
    using g that by (simp add: flat_at_def)
next
  assume A: "array2D_sized H1 w1 h1 flags1 = Inr (H1', a1') \<and> y1 < h1"
  then have s: "array2D_sized H1 w1 h1 flags1 = Inr (H1', a1')" and y: "y1 < h1" by simp_all
  note ss = sized_Inr [OF s]
  show oi: "op_index H1' a1' y1 = Inr (ptr_add (op_flat a1') (int (size_mul y1 w1)))"
    using ss y by (simp add: op_index_def op_flat_def)
  then show "get_at H1' a1' y1 x1 = flat_at H1' a1' (size_mul y1 w1 + x1)"
    by (simp add: get_at_def flat_at_def ptr_add_add)
next
  assume A: "array2D_from H2 w2 h2 source flags2 = Inr (H2', a2')
        \<and> flags2 AND ARRAY2D_BYREFERENCE = 0 \<and> valid_source H2 source w2 h2
        \<and> w2 * h2 < SIZE_MOD \<and> y2 < h2"
  then have c: "array2D_from H2 w2 h2 source flags2 = Inr (H2', a2')"
    and f: "flags2 AND ARRAY2D_BYREFERENCE = 0" and v: "valid_source H2 source w2 h2"
    and wh: "w2 * h2 < SIZE_MOD" and y: "y2 < h2"
    by simp_all
  note cc = from_copy_Inr [OF c f v wh]
  show oi: "op_index H2' a2' y2 = Inr (ptr_add (op_flat a2') (int (y2 * w2)))"
    using cc y by (simp add: op_index_def op_flat_def mult.commute)
  then show "get_at H2' a2' y2 x2 = flat_at H2' a2' (y2 * w2 + x2)"
    by (simp add: get_at_def flat_at_def ptr_add_add)
qed

text \<open>
  C5 as stated fails for an instance resized with a nonzero offset. The empty instance is resized to 2 by 1 with offset 1 and cleared, then 7 is written to \<^verbatim>\<open>array[0][0]\<close>: \<^verbatim>\<open>array[0][1]\<close> reads 0, and the flat view at \<open>0 * 2 + 1\<close> reads 7.
\<close>

theorem rows_follow_data_counterexample:
  "resize heap0 array2D_empty 2 1 ARRAY2D_CLEAR_DATA 1 = Inr (heap_off, array_off)
   \<and> put_at heap_off array_off 0 0 7 =
        Inr (heap_off\<lparr>elems := [Some [None, Some 7, Some 0]]\<rparr>)
   \<and> get_at (heap_off\<lparr>elems := [Some [None, Some 7, Some 0]]\<rparr>) array_off 0 1 = Inr (Some 0)
   \<and> flat_at (heap_off\<lparr>elems := [Some [None, Some 7, Some 0]]\<rparr>) array_off (0 * 2 + 1) =
        Inr (Some 7)"
  using resize_off_example
  by (simp add: eval_access heap_off_def array_off_def)

text \<open>
  C5 at three runs: the resize of the empty instance to 2 by 1 with offset 1 (row 0 is \<^verbatim>\<open>data + 1\<close>, and \<^verbatim>\<open>array[0][1]\<close> is \<^verbatim>\<open>data[2]\<close>), the 2-by-2 array of creator type 1, and the copy of the one-row table.
\<close>

theorem rows_follow_data_witness:
  "op_index heap_off array_off 0 = Inr (Ptr 0 1)
   \<and> get_at heap_off array_off 0 1 = load_elem heap_off (Ptr 0 2)
   \<and> get_at heap_2x2 array_2x2 1 1 = flat_at heap_2x2 array_2x2 3
   \<and> get_at heap_copy array_copy 0 1 = flat_at heap_copy array_copy 1"
  using rows_follow_data [of heap0 array2D_empty 2 1 ARRAY2D_CLEAR_DATA 1 heap_off array_off 0 1
      heap0 2 2 0 heap_2x2 array_2x2 1 1
      heap_src 2 1 "Ptr 0 0" 0 heap_copy array_copy 0 1]
    resize_off_example sized_2x2 from_copy_example valid_src_example
  by (simp add: op_flat_def array_off_def array_2x2_def array_copy_def size_mul_def SIZE_MOD_def
      ARRAY2D_BYREFERENCE_def)

subsection \<open>C6: write, then read\<close>

text \<open>
  C6 fails on the code, by a slip of \<^verbatim>\<open>ar_realloc\<close>. Where it allocates \<^verbatim>\<open>data\<close> it makes room
  for the offset (\<^verbatim>\<open>new T[height * width + offset]\<close>), but its test for keeping the array it
  has compares the element counts alone. The 2-by-2 array of creator type 1, resized to 2
  by 2 with offset 1, keeps its four elements, and its rows are set to \<^verbatim>\<open>data + 1\<close> and
  \<^verbatim>\<open>data + 3\<close>: \<^verbatim>\<open>array[1][1]\<close> is \<^verbatim>\<open>data[4]\<close>, one past the end of the array, and the write to
  this valid coordinate of an owning instance is outside the array. (For an instance whose
  array holds \<open>offset + width * height\<close> elements the write is read back and leaves the
  other elements alone, \<open>put_at_owning\<close>, and a resize with the offset the rows were set
  with keeps the instance so, \<open>resize_owning\<close>.)
\<close>

theorem write_past_kept_array:
  "array2D_sized heap0 2 2 0 = Inr (heap_2x2, array_2x2)
   \<and> resize heap_2x2 array_2x2 2 2 0 1 = Inr (heap_shifted, array_2x2)
   \<and> op_flat array_2x2 = Ptr 0 0 \<and> getWidth array_2x2 = 2 \<and> getHeight array_2x2 = 2
   \<and> elems heap_shifted = [Some [None, None, None, None]]
   \<and> op_index heap_shifted array_2x2 1 = Inr (Ptr 0 3)
   \<and> put_at heap_shifted array_2x2 1 1 5 = Inl Out_of_bounds
   \<and> get_at heap_shifted array_2x2 1 1 = Inl Out_of_bounds"
  using sized_2x2
  by (simp add: eval_resize eval_heap eval_access heap_2x2_def array_2x2_def heap_shifted_def
      getWidth_def getHeight_def)

subsection \<open>C7: fill\<close>

text \<open>
  C7, as the code has it. \<^verbatim>\<open>fill\<close> writes \<^verbatim>\<open>data[0]\<close>, ..., \<^verbatim>\<open>data[width * height - 1]\<close>, and
  the class does not keep the offset its rows were set with. For an owning instance in good
  order \<^verbatim>\<open>fill\<close> returns in either mode; afterwards each of these elements of the flat view is
  \<open>v\<close>, and the heap a parallel run leaves, whatever the order of its iterations, is the heap
  the sequential run leaves. \<^verbatim>\<open>array[y][x]\<close> is \<open>v\<close> afterwards where \<open>offset + width * y + x\<close> is
  below \<open>width * height\<close>, and is what it was before elsewhere: at every valid coordinate
  when the rows start at \<^verbatim>\<open>data\<close> (offset 0), and at all but the last \<open>offset\<close> elements of the
  array otherwise.
\<close>

theorem fill_sets_every_element:
  assumes "owning H a offset" and "multiThread \<longrightarrow> is_schedule a sched"
  shows "\<exists>H'. fill H a v multiThread sched = Inr H' \<and> fill H a v False [] = Inr H'
     \<and> (\<forall>k<width a * height a. flat_at H' a k = Inr (Some v))
     \<and> (\<forall>y<height a. \<forall>x<width a.
          get_at H' a y x =
            (if nat offset + (width a * y + x) < width a * height a then Inr (Some v)
             else get_at H a y x))
     \<and> (offset = 0 \<longrightarrow> (\<forall>y<height a. \<forall>x<width a. get_at H' a y x = Inr (Some v)))
     \<and> owning H' a offset"
proof -
  from owningD(3) [OF assms(1)] obtain b cs where
    b: "data a = Ptr b 0" "b < length (elems H)" "elems H ! b = Some cs"
      "nat offset + width a * height a \<le> length cs"
    by blast
  have off: "0 \<le> offset" using owningD(2) [OF assms(1)] .
  let ?n = "size_mul (width a) (height a)"
  have n: "?n = width a * height a"
    using owningD(1) [OF assms(1)] by (simp add: size_mul_def)
  have "\<forall>k\<in>set [0..<?n]. k < length cs" using n b by simp
  from fill_par_total [OF b(1,2,3) this] obtain H' where
    seq: "fill_par H a v [0..<?n] = Inr H'" by blast
  note f = fill_par_Inr [OF seq]
  have s: "fill H a v False [] = Inr H'" using seq by (simp add: fill_sequential)
  have m: "fill H a v multiThread sched = Inr H'"
  proof (cases multiThread)
    case False
    then show ?thesis using seq by (simp add: fill_sequential)
  next
    case True
    with assms(2) have "is_schedule a sched" by simp
    then have sch: "set sched = set [0..<?n]"
      by (simp add: is_schedule_def lessThan_atLeast0)
    then have "\<forall>k\<in>set sched. k < length cs" using n b by simp
    from fill_par_total [OF b(1,2,3) this] obtain H'' where
      par: "fill_par H a v sched = Inr H''" by blast
    have "H'' = H'" using par seq sch by (rule fill_par_same_set)
    then show ?thesis using True par by (simp add: fill_parallel)
  qed
  have flat: "flat_at H' a k = Inr (Some v)" if "k < width a * height a" for k
    using f that n by (simp add: flat_at_def op_flat_def)
  have own: "owning H' a offset"
    using f by (intro owning_frame [OF assms(1)]) simp_all
  have cell: "get_at K a y x = load_elem K (ptr_add (data a) (int (nat offset + (width a * y + x))))"
    if "owning K a offset" "y < height a" for K :: "'a heap" and y x
  proof -
    have "offset + int (width a * y) + int x = int (nat offset + (width a * y + x))"
      using off by simp
    then show ?thesis using owning_get_at [OF that, of x] by (simp only:)
  qed
  have rows: "get_at H' a y x =
      (if nat offset + (width a * y + x) < width a * height a then Inr (Some v)
       else get_at H a y x)"
    if "y < height a" "x < width a" for y x
  proof (cases "nat offset + (width a * y + x) < width a * height a")
    case True
    then have "flat_at H' a (nat offset + (width a * y + x)) = Inr (Some v)" by (rule flat)
    then show ?thesis using True cell [OF own that(1), of x] by (simp add: flat_at_def op_flat_def)
  next
    case False
    let ?q = "ptr_add (data a) (int (nat offset + (width a * y + x)))"
    define idx where "idx = nat offset + (width a * y + x)"
    have ne: "ptr_add (data a) (int idx) \<noteq> ptr_add (data a) (int k)"
      if "k < width a * height a" for k
    proof -
      have "idx \<noteq> k" using that False by (simp add: idx_def)
      then show ?thesis using b(1) by simp
    qed
    have "\<forall>k\<in>set [0..<?n]. ?q \<noteq> ptr_add (data a) (int k)"
      using ne n by (simp add: idx_def)
    then have "load_elem H' ?q = load_elem H ?q" using f by blast
    then show ?thesis
      using False cell [OF own that(1), of x] cell [OF assms(1) that(1), of x] by simp
  qed
  have zero: "get_at H' a y x = Inr (Some v)"
    if "offset = 0" "y < height a" "x < width a" for y x
    using rows [OF that(2,3)] cell_index_less [OF that(2,3)] that(1) by simp
  show ?thesis using m s flat rows zero own by blast
qed

text \<open>
  C7 as stated fails for an instance resized with a nonzero offset. The empty instance is
  resized to 2 by 1 with offset 1 and cleared, then filled with 7: \<^verbatim>\<open>fill\<close> writes \<^verbatim>\<open>data[0]\<close>
  and \<^verbatim>\<open>data[1]\<close>, and \<^verbatim>\<open>array[0][1]\<close>, which is \<^verbatim>\<open>data[2]\<close>, still reads 0.
\<close>

theorem fill_sets_every_element_counterexample:
  "resize heap0 array2D_empty 2 1 ARRAY2D_CLEAR_DATA 1 = Inr (heap_off, array_off)
   \<and> op_flat array_off = Ptr 0 0
   \<and> fill heap_off array_off 7 False [] =
        Inr (heap_off\<lparr>elems := [Some [Some 7, Some 7, Some 0]]\<rparr>)
   \<and> get_at (heap_off\<lparr>elems := [Some [Some 7, Some 7, Some 0]]\<rparr>) array_off 0 1 = Inr (Some 0)"
  using resize_off_example fill_off
  by (simp add: eval_access heap_off_def array_off_def)

text \<open>
  C7 at the 2-by-2 array, value 7, with the parallel iterations in the order 3, 1, 0, 2, and
  at the 2-by-1 instance with offset 1, where \<^verbatim>\<open>array[0][0]\<close> becomes 7 and \<^verbatim>\<open>array[0][1]\<close>
  is left as it was.
\<close>

theorem fill_sets_every_element_witness:
  "fill heap_2x2 array_2x2 7 True [3, 1, 0, 2] =
     Inr (heap_2x2\<lparr>elems := [Some [Some 7, Some 7, Some 7, Some 7]]\<rparr>)
   \<and> fill heap_2x2 array_2x2 7 False [] =
     Inr (heap_2x2\<lparr>elems := [Some [Some 7, Some 7, Some 7, Some 7]]\<rparr>)
   \<and> flat_at (heap_2x2\<lparr>elems := [Some [Some 7, Some 7, Some 7, Some 7]]\<rparr>) array_2x2 3 =
     Inr (Some 7)
   \<and> get_at (heap_2x2\<lparr>elems := [Some [Some 7, Some 7, Some 7, Some 7]]\<rparr>) array_2x2 1 1 =
     Inr (Some 7)
   \<and> fill heap_off array_off 7 False [] =
     Inr (heap_off\<lparr>elems := [Some [Some 7, Some 7, Some 0]]\<rparr>)
   \<and> get_at (heap_off\<lparr>elems := [Some [Some 7, Some 7, Some 0]]\<rparr>) array_off 0 0 = Inr (Some 7)
   \<and> get_at (heap_off\<lparr>elems := [Some [Some 7, Some 7, Some 0]]\<rparr>) array_off 0 1 =
     get_at heap_off array_off 0 1"
  using fill_sets_every_element [OF owning_2x2, of True "[3, 1, 0, 2]" 7]
    fill_sets_every_element [OF owning_off, of False "[]" 7]
    schedule_example fill_par_2x2 fill_2x2 fill_off
  by (simp add: eval_access heap_2x2_def array_2x2_def heap_off_def array_off_def)

subsection \<open>C8: the slots of multi\_array2D\<close>

text \<open>
  C8. When the constructor of \<^verbatim>\<open>multi_array2D\<close> returns there are \<open>num\<close> slots, and the heap
  is the one it started in with \<open>num\<close> more arrays and \<open>num\<close> more row tables. Slot \<open>i\<close> is
  what the resize of the empty instance with \<open>(width, height, flags, (i + 1) * offset)\<close>
  returned -- the product as the code computes it, in \<^verbatim>\<open>size_t\<close> and passed as \<^verbatim>\<open>int\<close> --
  when it ran in the heap with \<open>i\<close> more arrays and tables, and nothing that call left has
  changed since. So in the final heap the slot has that shape, a \<^verbatim>\<open>data\<close> array and a row
  table of its own (those the \<open>i\<close>-th call allocated), rows that start at \<^verbatim>\<open>data\<close> plus that
  offset plus \<open>width * y\<close>, \<open>width * height\<close> elements from \<^verbatim>\<open>data\<close> plus that offset on that are
  0 when \<^verbatim>\<open>ARRAY2D_CLEAR_DATA\<close> is set, and an array no element of which was written
  when it is not. With a non-negative offset and sizes that \<^verbatim>\<open>int\<close> and \<^verbatim>\<open>size_t\<close> hold, the
  argument is \<open>(i + 1) * offset\<close> itself, the array is \<open>width * height + (i + 1) * offset\<close>
  elements long, the slot is an owning instance in good order with that offset, and
  \<^verbatim>\<open>array[y][x]\<close> reads 0 at every valid coordinate when clearing was asked for. And with
  such sizes, within what \<^verbatim>\<open>new[]\<close> can obtain, the constructor does return.
\<close>

theorem multi_array2D_slots:
  fixes H K :: "('a::zero) heap"
  shows "(multi_array2D H num w h flags offset = Inr (H', slots) \<and> i < num \<longrightarrow>
       length slots = num
     \<and> extended H H'
     \<and> length (elems H') = length (elems H) + num \<and> length (tabs H') = length (tabs H) + num
     \<and> (\<exists>Hi Hi' :: 'a heap.
          extended H Hi \<and> length (elems Hi) = length (elems H) + i
        \<and> length (tabs Hi) = length (tabs H) + i
        \<and> resize Hi array2D_empty w h flags (int_of_size (size_times_int (i + 1) offset)) =
            Inr (Hi', slots ! i)
        \<and> extended Hi' H')
     \<and> getWidth (slots ! i) = w \<and> getHeight (slots ! i) = h
     \<and> op_flat (slots ! i) = Ptr (length (elems H) + i) 0
     \<and> op_rows (slots ! i) = Ptr (length (tabs H) + i) 0
     \<and> (\<forall>y<h. op_index H' (slots ! i) y =
            Inr (ptr_add (ptr_add (op_flat (slots ! i))
                   (int_of_size (size_times_int (i + 1) offset))) (int (size_mul w y))))
     \<and> (flags AND ARRAY2D_CLEAR_DATA \<noteq> 0 \<longrightarrow>
          (\<forall>k < size_mul w h.
             load_elem H' (ptr_add (ptr_add (op_flat (slots ! i))
                   (int_of_size (size_times_int (i + 1) offset))) (int k)) = Inr (Some 0)))
     \<and> (flags AND ARRAY2D_CLEAR_DATA = 0 \<longrightarrow>
          elems H' ! (length (elems H) + i) =
            Some (replicate (size_plus_int (size_mul h w)
                   (int_of_size (size_times_int (i + 1) offset))) None))
     \<and> (0 \<le> offset \<and> int num * offset < 2 ^ 31
          \<and> int (w * h) + int num * offset < int SIZE_MOD \<longrightarrow>
          int_of_size (size_times_int (i + 1) offset) = int (i + 1) * offset
        \<and> map_option length (elems H' ! (length (elems H) + i)) =
            Some (w * h + nat (int (i + 1) * offset))
        \<and> owning H' (slots ! i) (int (i + 1) * offset)
        \<and> (flags AND ARRAY2D_CLEAR_DATA \<noteq> 0 \<longrightarrow>
             (\<forall>y<h. \<forall>x<w. get_at H' (slots ! i) y x = Inr (Some 0)))))
   \<and> (0 \<le> offset1 \<and> int num1 * offset1 < 2 ^ 31
        \<and> int (w1 * h1) + int num1 * offset1 < int SIZE_MOD
        \<and> h1 \<le> limit K \<and> w1 * h1 + nat (int num1 * offset1) \<le> limit K \<longrightarrow>
       (\<exists>K' slots1. multi_array2D K num1 w1 h1 flags1 offset1 = Inr (K', slots1)))"
proof (intro conjI impI)
  assume A: "0 \<le> offset1 \<and> int num1 * offset1 < 2 ^ 31
        \<and> int (w1 * h1) + int num1 * offset1 < int SIZE_MOD
        \<and> h1 \<le> limit K \<and> w1 * h1 + nat (int num1 * offset1) \<le> limit K"
  then show "\<exists>K' slots1. multi_array2D K num1 w1 h1 flags1 offset1 = Inr (K', slots1)"
    using multi_total [of offset1 num1 w1 h1 K flags1] by blast
next
  assume A: "multi_array2D H num w h flags offset = Inr (H', slots) \<and> i < num"
  then have m: "multi_array2D H num w h flags offset = Inr (H', slots)" and i: "i < num"
    by simp_all
  let ?ne = "length (elems H)" and ?nt = "length (tabs H)"
  let ?off = "int_of_size (size_times_int (i + 1) offset)"
  let ?a = "slots ! i"
  note l = multi_loop_run [OF m]
  show "length slots = num" "extended H H'" "length (elems H') = ?ne + num"
    "length (tabs H') = ?nt + num"
    using l by simp_all
  have "slot_run H H' w h flags offset ?a i" using l i by blast
  then obtain Hi Hi' :: "'a heap" where
    s: "extended H Hi" "length (elems Hi) = ?ne + i" "length (tabs Hi) = ?nt + i"
    and r: "resize Hi array2D_empty w h flags ?off = Inr (Hi', ?a)"
    and e: "extended Hi' H'"
    unfolding slot_run_def by blast
  show "\<exists>Hi Hi' :: 'a heap.
          extended H Hi \<and> length (elems Hi) = ?ne + i \<and> length (tabs Hi) = ?nt + i
        \<and> resize Hi array2D_empty w h flags ?off = Inr (Hi', ?a) \<and> extended Hi' H'"
    using s r e by blast
  have nul: "rows array2D_empty = Null" "data array2D_empty = Null"
    by (simp_all add: array2D_empty_def)
  note z = resize_null_Inr [OF r nul]
  show "getWidth ?a = w" "getHeight ?a = h" using z by (simp_all add: getWidth_def getHeight_def)
  show fl: "op_flat ?a = Ptr (?ne + i) 0" using z s by (simp add: op_flat_def)
  show ro: "op_rows ?a = Ptr (?nt + i) 0" using z s by (simp add: op_rows_def)
  have d: "data ?a = Ptr (?ne + i) 0" and rw: "rows ?a = Ptr (?nt + i) 0" and ht: "height ?a = h"
    using z s by simp_all
  show "\<forall>y<h. op_index H' ?a y = Inr (ptr_add (ptr_add (op_flat ?a) ?off) (int (size_mul w y)))"
  proof (intro allI impI)
    fix y assume y: "y < h"
    have "load_row Hi' (Ptr (?nt + i) (int y)) = Inr (Ptr (?ne + i) (?off + int (size_mul w y)))"
      using z y s by simp
    from extended_load_row [OF e this]
    show "op_index H' ?a y = Inr (ptr_add (ptr_add (op_flat ?a) ?off) (int (size_mul w y)))"
      using y ht rw fl by (simp add: op_index_def)
  qed
  show "\<forall>k < size_mul w h.
      load_elem H' (ptr_add (ptr_add (op_flat ?a) ?off) (int k)) = Inr (Some 0)"
    if c: "flags AND ARRAY2D_CLEAR_DATA \<noteq> 0"
  proof (intro allI impI)
    fix k assume k: "k < size_mul w h"
    have "load_elem Hi' (ptr_add (ptr_add (data ?a) ?off) (int k)) = Inr (Some 0)"
      using resize_cleared [OF r c] k by blast
    from extended_load_elem [OF e this]
    show "load_elem H' (ptr_add (ptr_add (op_flat ?a) ?off) (int k)) = Inr (Some 0)"
      by (simp add: op_flat_def)
  qed
  show "elems H' ! (?ne + i) = Some (replicate (size_plus_int (size_mul h w) ?off) None)"
    if c: "flags AND ARRAY2D_CLEAR_DATA = 0"
  proof -
    have "elems Hi' ! (?ne + i) = Some (replicate (size_plus_int (size_mul h w) ?off) None)"
      using resize_null_fresh [OF r nul c] s by (simp add: nth_append)
    moreover have "?ne + i < length (elems Hi')" using z s by simp
    ultimately show ?thesis using e by (simp add: extended_def)
  qed
  have good: "?off = int (i + 1) * offset
      \<and> map_option length (elems H' ! (?ne + i)) = Some (w * h + nat (int (i + 1) * offset))
      \<and> owning H' ?a (int (i + 1) * offset)
      \<and> (flags AND ARRAY2D_CLEAR_DATA \<noteq> 0 \<longrightarrow>
             (\<forall>y<h. \<forall>x<w. get_at H' ?a y x = Inr (Some 0)))"
    if B: "0 \<le> offset \<and> int num * offset < 2 ^ 31
          \<and> int (w * h) + int num * offset < int SIZE_MOD"
  proof -
    from B have o: "0 \<le> offset" and n: "int num * offset < 2 ^ 31"
      and sm: "int (w * h) + int num * offset < int SIZE_MOD"
      by simp_all
    have "int (i + 1) \<le> int num" using i by simp
    then have le: "int (i + 1) * offset \<le> int num * offset" using o by (rule mult_right_mono)
    have off0: "0 \<le> int (i + 1) * offset" using o by simp
    have lt: "int (i + 1) * offset < 2 ^ 31" using le n by (rule le_less_trans)
    have off: "?off = int (i + 1) * offset" using off0 lt by (rule int_of_size_times)
    have sz: "int (w * h) + int (i + 1) * offset < int SIZE_MOD" using le sm by linarith
    have wh: "w * h < SIZE_MOD" using off0 sz by linarith
    then have hw: "size_mul h w = w * h" "size_mul w h = w * h"
      by (simp_all add: size_mul_def mult.commute)
    have "(int (w * h) + int (i + 1) * offset) mod int SIZE_MOD = int (w * h) + int (i + 1) * offset"
      using off0 sz by (intro mod_pos_pos_trivial) simp_all
    moreover have "int (w * h) + int (i + 1) * offset = int (w * h + nat (int (i + 1) * offset))"
      using off0 by simp
    ultimately have "size_plus_int (size_mul h w) (int (i + 1) * offset) =
        nat (int (w * h + nat (int (i + 1) * offset)))"
      by (simp only: size_plus_int_def hw)
    then have len: "size_plus_int (size_mul h w) (int (i + 1) * offset) =
        w * h + nat (int (i + 1) * offset)"
      by (simp only: nat_int)
    have "map_option length (elems Hi' ! length (elems Hi)) =
        Some (size_plus_int (size_mul h w) ?off)"
      using z by blast
    then have "map_option length (elems Hi' ! (?ne + i)) = Some (w * h + nat (int (i + 1) * offset))"
      by (simp only: off len s)
    moreover have "?ne + i < length (elems Hi')" using z s by simp
    ultimately have ln: "map_option length (elems H' ! (?ne + i)) =
        Some (w * h + nat (int (i + 1) * offset))"
      using e by (simp add: extended_def)
    have r': "resize Hi array2D_empty w h flags (int (i + 1) * offset) = Inr (Hi', ?a)"
      using r by (simp only: off)
    have own': "owning Hi' ?a (int (i + 1) * offset)"
      using r' nul off0 sz by (rule resize_null_owning)
    have own: "owning H' ?a (int (i + 1) * offset)"
    proof (rule owning_extend [OF own'])
      show "length (elems Hi') \<le> length (elems H')" using e by (simp add: extended_def)
      show "length (tabs Hi') \<le> length (tabs H')" using e by (simp add: extended_def)
      show "elems H' ! b = elems Hi' ! b" if "b < length (elems Hi')" for b
        using e that by (simp add: extended_def)
      show "tabs H' ! t = tabs Hi' ! t" if "t < length (tabs Hi')" for t
        using e that by (simp add: extended_def)
    qed
    have cl: "flags AND ARRAY2D_CLEAR_DATA \<noteq> 0 \<longrightarrow>
             (\<forall>y<h. \<forall>x<w. get_at H' ?a y x = Inr (Some 0))"
    proof (intro allI impI)
      fix y x assume c: "flags AND ARRAY2D_CLEAR_DATA \<noteq> 0" and y: "y < h" and x: "x < w"
      have k: "w * y + x < size_mul w h" using cell_index_less [OF y x] hw by simp
      have "load_elem Hi' (ptr_add (ptr_add (data ?a) (int (i + 1) * offset)) (int (w * y + x))) =
          Inr (Some 0)"
        using resize_cleared [OF r' c] k by blast
      from extended_load_elem [OF e this]
      have "load_elem H' (ptr_add (data ?a) (int (i + 1) * offset + int (w * y) + int x)) =
          Inr (Some 0)"
        by (simp add: ptr_add_add add.assoc)
      then show "get_at H' ?a y x = Inr (Some 0)"
        using owning_get_at [OF own, of y x] y z by simp
    qed
    show ?thesis using off ln own cl by blast
  qed
  show "?off = int (i + 1) * offset"
    if "0 \<le> offset \<and> int num * offset < 2 ^ 31
          \<and> int (w * h) + int num * offset < int SIZE_MOD"
    using good [OF that] by blast
  show "map_option length (elems H' ! (?ne + i)) = Some (w * h + nat (int (i + 1) * offset))"
    if "0 \<le> offset \<and> int num * offset < 2 ^ 31
          \<and> int (w * h) + int num * offset < int SIZE_MOD"
    using good [OF that] by blast
  show "owning H' ?a (int (i + 1) * offset)"
    if "0 \<le> offset \<and> int num * offset < 2 ^ 31
          \<and> int (w * h) + int num * offset < int SIZE_MOD"
    using good [OF that] by blast
  show "\<forall>y<h. \<forall>x<w. get_at H' ?a y x = Inr (Some 0)"
    if "0 \<le> offset \<and> int num * offset < 2 ^ 31
          \<and> int (w * h) + int num * offset < int SIZE_MOD"
      and "flags AND ARRAY2D_CLEAR_DATA \<noteq> 0"
    using good [OF that(1)] that(2) by blast
qed

text \<open>
  C8 at two slots of 2 by 1 with offset 1. With clearing: slot 1 was resized with offset
  2, its array is array 1, four elements long, its row 0 is \<^verbatim>\<open>data + 2\<close>, and \<^verbatim>\<open>array[0][1]\<close>
  reads 0. Without: no element of array 1 was written.
\<close>

theorem multi_array2D_slots_witness:
  "multi_array2D heap0 2 2 1 ARRAY2D_CLEAR_DATA 1 = Inr (heap_multi_zero, slots_multi)
   \<and> length slots_multi = 2
   \<and> length (elems heap_multi_zero) = 2 \<and> length (tabs heap_multi_zero) = 2
   \<and> getWidth (slots_multi ! 1) = 2 \<and> getHeight (slots_multi ! 1) = 1
   \<and> op_flat (slots_multi ! 1) = Ptr 1 0
   \<and> op_rows (slots_multi ! 1) = Ptr 1 0
   \<and> int_of_size (size_times_int 2 1) = 2
   \<and> map_option length (elems heap_multi_zero ! 1) = Some 4
   \<and> op_index heap_multi_zero (slots_multi ! 1) 0 = Inr (Ptr 1 2)
   \<and> get_at heap_multi_zero (slots_multi ! 1) 0 1 = Inr (Some 0)
   \<and> multi_array2D heap0 2 2 1 0 1 = Inr (heap_multi, slots_multi)
   \<and> elems heap_multi ! 1 = Some [None, None, None, None]
   \<and> (\<exists>K' slots1. multi_array2D heap0 2 2 1 ARRAY2D_CLEAR_DATA 1 = Inr (K', slots1))"
  using multi_array2D_slots [of heap0 2 2 1 ARRAY2D_CLEAR_DATA 1 heap_multi_zero slots_multi 1
      1 2 2 1 heap0 ARRAY2D_CLEAR_DATA]
    multi_array2D_slots [of heap0 2 2 1 0 1 heap_multi slots_multi 1
      1 2 2 1 heap0 0]
    multi_zero_example multi_example
  by (simp add: SIZE_MOD_def heap0_def heap_multi_zero_def heap_multi_def slots_multi_def
      getWidth_def getHeight_def op_flat_def op_rows_def eval_access int_of_size_def
      size_times_int_def size_plus_int_def size_mul_def ARRAY2D_CLEAR_DATA_def)

subsection \<open>C9: release of a referencing instance\<close>

text \<open>
  C9. An instance whose \<^verbatim>\<open>data\<close> is null owns at most its row table: when \<^verbatim>\<open>free\<close> or the
  destructor returns, every array of elements is as it was -- none released, none changed --
  and so is every row table but the instance's own. For an instance just made with
  \<^verbatim>\<open>BYREFERENCE\<close> both do return, and all the arrays of elements and all the row tables that
  existed before the construction, the source table among them, are as they were then.
\<close>

theorem reference_release_keeps_external:
  "(op_flat a = Null \<and> free H1 a = Inr (H2, a2) \<longrightarrow>
      elems H2 = elems H1 \<and> length (tabs H2) = length (tabs H1)
      \<and> (\<forall>t. op_rows a \<noteq> Ptr t 0 \<longrightarrow> tabs H2 ! t = tabs H1 ! t))
   \<and> (op_flat a = Null \<and> array2D_destroy H1 a = Inr H3 \<longrightarrow>
      elems H3 = elems H1 \<and> length (tabs H3) = length (tabs H1)
      \<and> (\<forall>t. op_rows a \<noteq> Ptr t 0 \<longrightarrow> tabs H3 ! t = tabs H1 ! t))
   \<and> (array2D_from H w h source flags = Inr (K, b) \<and> flags AND ARRAY2D_BYREFERENCE \<noteq> 0 \<longrightarrow>
      (\<exists>K2 b2. free K b = Inr (K2, b2) \<and> elems K2 = elems H
            \<and> (\<forall>t<length (tabs H). tabs K2 ! t = tabs H ! t))
      \<and> (\<exists>K3. array2D_destroy K b = Inr K3 \<and> elems K3 = elems H
            \<and> (\<forall>t<length (tabs H). tabs K3 ! t = tabs H ! t)))"
proof (intro conjI impI)
  assume A: "op_flat a = Null \<and> free H1 a = Inr (H2, a2)"
  then have "delete_rows H1 (rows a) = Inr H2"
    by (auto simp: free_def op_flat_def delete_elems_def bind_err_eq_Inr Let_def)
  then show "elems H2 = elems H1" "length (tabs H2) = length (tabs H1)"
    "\<forall>t. op_rows a \<noteq> Ptr t 0 \<longrightarrow> tabs H2 ! t = tabs H1 ! t"
    by (auto simp: delete_rows_Inr delete_block_Inr op_rows_def)
next
  assume A: "op_flat a = Null \<and> array2D_destroy H1 a = Inr H3"
  then have "delete_rows H1 (rows a) = Inr H3"
    by (auto simp: array2D_destroy_def op_flat_def delete_elems_def bind_err_eq_Inr)
  then show "elems H3 = elems H1" "length (tabs H3) = length (tabs H1)"
    "\<forall>t. op_rows a \<noteq> Ptr t 0 \<longrightarrow> tabs H3 ! t = tabs H1 ! t"
    by (auto simp: delete_rows_Inr delete_block_Inr op_rows_def)
next
  assume A: "array2D_from H w h source flags = Inr (K, b) \<and> flags AND ARRAY2D_BYREFERENCE \<noteq> 0"
  then have c: "array2D_from H w h source flags = Inr (K, b)"
    and f: "flags AND ARRAY2D_BYREFERENCE \<noteq> 0"
    by simp_all
  note r = from_ref_Inr [OF c f]
  let ?K2 = "K\<lparr>tabs := (tabs K)[length (tabs H) := None]\<rparr>"
  have fr: "free K b = Inr (?K2, b\<lparr>data := Null, rows := Null\<rparr>)"
    using c f by (rule free_reference)
  have e: "elems ?K2 = elems H" using r by simp
  have t: "\<forall>t<length (tabs H). tabs ?K2 ! t = tabs H ! t" using r by simp
  have d: "array2D_destroy K b = Inr ?K2"
    by (simp add: destroy_as_free fr)
  show "\<exists>K2 b2. free K b = Inr (K2, b2) \<and> elems K2 = elems H
            \<and> (\<forall>t<length (tabs H). tabs K2 ! t = tabs H ! t)"
    using fr e t by blast
  show "\<exists>K3. array2D_destroy K b = Inr K3 \<and> elems K3 = elems H
            \<and> (\<forall>t<length (tabs H). tabs K3 ! t = tabs H ! t)"
    using d e t by blast
qed

text \<open>
  C9 at the instance that refers to the one-row table: after \<^verbatim>\<open>free\<close>, and after the destructor, the elements and the source's table are those of the heap before the construction.
\<close>

theorem reference_release_keeps_external_witness:
  "free heap_ref array_ref =
     Inr (heap_ref\<lparr>tabs := [Some [Some (Ptr 0 0)], None]\<rparr>, array_ref\<lparr>data := Null, rows := Null\<rparr>)
   \<and> array2D_destroy heap_ref array_ref = Inr (heap_ref\<lparr>tabs := [Some [Some (Ptr 0 0)], None]\<rparr>)
   \<and> elems (heap_ref\<lparr>tabs := [Some [Some (Ptr 0 0)], None]\<rparr>) = elems heap_src
   \<and> tabs (heap_ref\<lparr>tabs := [Some [Some (Ptr 0 0)], None]\<rparr>) ! 0 = tabs heap_src ! 0"
  using reference_release_keeps_external [of array_ref heap_ref
      "heap_ref\<lparr>tabs := [Some [Some (Ptr 0 0)], None]\<rparr>" "array_ref\<lparr>data := Null, rows := Null\<rparr>"
      "heap_ref\<lparr>tabs := [Some [Some (Ptr 0 0)], None]\<rparr>"
      heap_src 2 1 "Ptr 0 0" 2 heap_ref array_ref]
    from_ref_example free_ref_example
  by (simp add: ARRAY2D_BYREFERENCE_def destroy_as_free heap_src_def op_flat_def array_ref_def)

subsection \<open>C10: fill without data\<close>

text \<open>
  C10. A \<^verbatim>\<open>BYREFERENCE\<close> instance has a null \<^verbatim>\<open>data\<close>. With a null \<^verbatim>\<open>data\<close>, \<^verbatim>\<open>fill\<close> -- in
  either mode -- stores through the null pointer as soon as \<^verbatim>\<open>width * height\<close> (as \<^verbatim>\<open>size_t\<close>)
  is not 0, and does nothing when it is 0. Whenever \<^verbatim>\<open>fill\<close> returns, the row tables are as
  they were and only the array \<^verbatim>\<open>data\<close> points into can differ: it writes through \<^verbatim>\<open>data\<close>
  alone.
\<close>

theorem fill_needs_data:
  "(array2D_from H0 w h source flags = Inr (H, a) \<and> flags AND ARRAY2D_BYREFERENCE \<noteq> 0
      \<longrightarrow> op_flat a = Null \<and> getWidth a = w \<and> getHeight a = h)
   \<and> (op_flat a = Null \<and> (multiThread \<longrightarrow> is_schedule a sched)
      \<longrightarrow> fill H a val multiThread sched =
           (if size_mul (width a) (height a) = 0 then Inr H else Inl Null_deref))
   \<and> (fill H1 a1 val1 multiThread1 sched1 = Inr H1'
      \<longrightarrow> tabs H1' = tabs H1
         \<and> (\<forall>t. (\<forall>j. op_flat a1 \<noteq> Ptr t j) \<longrightarrow> elems H1' ! t = elems H1 ! t))"
proof (intro conjI impI)
  assume A: "array2D_from H0 w h source flags = Inr (H, a) \<and> flags AND ARRAY2D_BYREFERENCE \<noteq> 0"
  have "a = \<lparr>width = w, height = h, rows = Ptr (length (tabs H0)) 0, data = Null\<rparr>"
    using A by (intro from_ref_record) blast+
  then show "op_flat a = Null" "getWidth a = w" "getHeight a = h"
    by (simp_all add: op_flat_def getWidth_def getHeight_def)
next
  assume A: "op_flat a = Null \<and> (multiThread \<longrightarrow> is_schedule a sched)"
  then have d: "data a = Null" by (simp add: op_flat_def)
  show "fill H a val multiThread sched =
      (if size_mul (width a) (height a) = 0 then Inr H else Inl Null_deref)"
  proof (cases multiThread)
    case True
    with A have "is_schedule a sched" by simp
    from schedule_empty_iff [OF this] show ?thesis
      using True by (simp add: fill_parallel fill_par_null [OF d])
  next
    case False
    then show ?thesis by (simp add: fill_sequential fill_par_null [OF d])
  qed
next
  assume "fill H1 a1 val1 multiThread1 sched1 = Inr H1'"
  then have "fill_par H1 a1 val1
      (if multiThread1 then sched1 else [0..<size_mul (width a1) (height a1)]) = Inr H1'"
    by (simp only: fill_as_par)
  from fill_par_Inr [OF this]
  show "tabs H1' = tabs H1"
    "\<forall>t. (\<forall>j. op_flat a1 \<noteq> Ptr t j) \<longrightarrow> elems H1' ! t = elems H1 ! t"
    by (simp_all add: op_flat_def)
qed

text \<open>
  C10 at the instance that refers to the one-row table, where \<^verbatim>\<open>fill\<close> stops at the null pointer, and at the 2-by-2 array, where it returns and leaves the row table alone.
\<close>

theorem fill_needs_data_witness:
  "array2D_from heap_src 2 1 (Ptr 0 0) 2 = Inr (heap_ref, array_ref) \<and>
   op_flat array_ref = Null \<and>
   fill heap_ref array_ref 5 False [] = Inl Null_deref \<and>
   fill heap_2x2 array_2x2 7 False [] =
     Inr (heap_2x2\<lparr>elems := [Some [Some 7, Some 7, Some 7, Some 7]]\<rparr>) \<and>
   tabs (heap_2x2\<lparr>elems := [Some [Some 7, Some 7, Some 7, Some 7]]\<rparr>) = tabs heap_2x2"
  using fill_needs_data [of heap_src 2 1 "Ptr 0 0" 2 heap_ref array_ref False "[]" 5
      heap_2x2 array_2x2 7 False "[]" "heap_2x2\<lparr>elems := [Some [Some 7, Some 7, Some 7, Some 7]]\<rparr>"]
    from_ref_example fill_2x2
  by (simp add: ARRAY2D_BYREFERENCE_def array_ref_def size_mul_def SIZE_MOD_def)

end
